theory Spec2Isabelle
  imports Complex_Main "HOL-Library.Word"
begin

unbundle bit_operations_syntax

section \<open>Binary32 arithmetic\<close>

text \<open>
  The program computes in C++ \<^verbatim>\<open>float\<close>. A finite float is modelled as the real number
  it denotes, and every arithmetic operation rounds its exact result to the nearest
  binary32 value, ties to even (24 significant bits, exponents from -126 to 127, gradual
  underflow below). NaN and the infinities are not values of the model: every quantity the
  theorems below speak about is bounded far below \<open>2 ^ 128\<close>, where binary32 does not
  overflow. Each C++ operation rounds on its own (no fused multiply-add).
\<close>

type_synonym f32 = real

definition rne :: "real \<Rightarrow> int" where
  \<comment> \<open>the nearest integer, a tie going to the even one\<close>
  "rne x = (let f = \<lfloor>x\<rfloor>; d = x - of_int f in
     if d < 1/2 then f else if 1/2 < d then f + 1 else if even f then f else f + 1)"

fun exp_search :: "nat \<Rightarrow> real \<Rightarrow> int" where
  "exp_search 0 a = -126"
| "exp_search (Suc n) a = (if 2 powi (int n - 125) \<le> a then int n - 125 else exp_search n a)"

definition f32_exponent :: "real \<Rightarrow> int" where
  \<comment> \<open>the binade of \<open>x\<close>: the largest \<open>e\<close> in \<open>-125..127\<close> with \<open>2 ^ e \<le> |x|\<close>, else \<open>-126\<close>\<close>
  "f32_exponent x = exp_search 253 \<bar>x\<bar>"

definition fl :: "real \<Rightarrow> f32" where
  "fl x = (let u = 2 powi (f32_exponent x - 23) in of_int (rne (x / u)) * u)"

definition fadd :: "f32 \<Rightarrow> f32 \<Rightarrow> f32" where
  "fadd a c = fl (a + c)"

definition fsub :: "f32 \<Rightarrow> f32 \<Rightarrow> f32" where
  "fsub a c = fl (a - c)"

definition fmul :: "f32 \<Rightarrow> f32 \<Rightarrow> f32" where
  "fmul a c = fl (a * c)"

definition fdiv :: "f32 \<Rightarrow> f32 \<Rightarrow> f32" where
  "fdiv a c = fl (a / c)"

definition int_to_f32 :: "int \<Rightarrow> f32" where
  \<comment> \<open>the conversion of an \<^verbatim>\<open>int\<close> operand to \<^verbatim>\<open>float\<close>\<close>
  "int_to_f32 n = fl (of_int n)"

definition c_round :: "real \<Rightarrow> int" where
  \<comment> \<open>\<^verbatim>\<open>std::round\<close> and \<^verbatim>\<open>std::lround\<close>: nearest integer, halves away from zero\<close>
  "c_round x = (if 0 \<le> x then \<lfloor>x + 1/2\<rfloor> else - \<lfloor>- x + 1/2\<rfloor>)"

definition c_trunc :: "real \<Rightarrow> int" where
  \<comment> \<open>\<^verbatim>\<open>static_cast<int>\<close> of a float: the fraction is discarded\<close>
  "c_trunc x = (if 0 \<le> x then \<lfloor>x\<rfloor> else \<lceil>x\<rceil>)"

definition clamp_int :: "int \<Rightarrow> int \<Rightarrow> int \<Rightarrow> int" where
  "clamp_int v lo hi = (if v < lo then lo else if hi < v then hi else v)"

definition clampf :: "f32 \<Rightarrow> f32 \<Rightarrow> f32 \<Rightarrow> f32" where
  "clampf v lo hi = (if v < lo then lo else if hi < v then hi else v)"

section \<open>Pixels and colour conversion\<close>

record RGB =
  r :: "8 word"
  g :: "8 word"
  b :: "8 word"

record YCbCr =
  y :: f32
  cb :: f32
  cr :: f32

definition u8_to_f32 :: "8 word \<Rightarrow> f32" where
  "u8_to_f32 c = of_nat (unat c)"

definition to_u8 :: "int \<Rightarrow> 8 word" where
  "to_u8 n = word_of_int n"

definition fromRGB :: "RGB \<Rightarrow> YCbCr" where
  "fromRGB rgb =
     \<lparr> y = fadd (fadd (fmul (fl 0.299) (u8_to_f32 (r rgb))) (fmul (fl 0.587) (u8_to_f32 (g rgb))))
               (fmul (fl 0.114) (u8_to_f32 (b rgb))),
       cb = fadd (fsub (fsub 128 (fmul (fl 0.168736) (u8_to_f32 (r rgb))))
                       (fmul (fl 0.331264) (u8_to_f32 (g rgb))))
                 (fmul (1/2) (u8_to_f32 (b rgb))),
       cr = fsub (fsub (fadd 128 (fmul (1/2) (u8_to_f32 (r rgb))))
                       (fmul (fl 0.418688) (u8_to_f32 (g rgb))))
                 (fmul (fl 0.081312) (u8_to_f32 (b rgb))) \<rparr>"

definition inv_r :: "YCbCr \<Rightarrow> f32" where
  "inv_r c = fadd (y c) (fmul (fl 1.402) (fsub (cr c) 128))"

definition inv_g :: "YCbCr \<Rightarrow> f32" where
  "inv_g c = fsub (fsub (y c) (fmul (fl 0.344136) (fsub (cb c) 128)))
                  (fmul (fl 0.714136) (fsub (cr c) 128))"

definition inv_b :: "YCbCr \<Rightarrow> f32" where
  "inv_b c = fadd (y c) (fmul (fl 1.772) (fsub (cb c) 128))"

definition toRGB :: "YCbCr \<Rightarrow> RGB" where
  "toRGB c =
     \<lparr> r = to_u8 (clamp_int (c_round (inv_r c)) 0 255),
       g = to_u8 (clamp_int (c_round (inv_g c)) 0 255),
       b = to_u8 (clamp_int (c_round (inv_b c)) 0 255) \<rparr>"

definition roundToMultiple :: "f32 \<Rightarrow> int \<Rightarrow> 8 word" where
  "roundToMultiple val mult =
     (let v = c_round (fdiv val (int_to_f32 mult)) * mult in to_u8 (clamp_int v 0 255))"

definition toRGBRounded :: "YCbCr \<Rightarrow> int \<Rightarrow> RGB" where
  "toRGBRounded c multiple =
     \<lparr> r = roundToMultiple (inv_r c) multiple,
       g = roundToMultiple (inv_g c) multiple,
       b = roundToMultiple (inv_b c) multiple \<rparr>"

section \<open>Quantisation and ordered dithering\<close>

definition quant_step :: "int \<Rightarrow> f32" where
  "quant_step levels = fdiv 255 (int_to_f32 (max levels 2 - 1))"

definition quantize :: "f32 \<Rightarrow> int \<Rightarrow> f32" where
  "quantize val levels =
     (let step = quant_step levels in fmul (of_int (c_round (fdiv val step))) step)"

definition bayer :: "f32 list list" where
  "bayer = [[0/16, 8/16, 2/16, 10/16],
            [12/16, 4/16, 14/16, 6/16],
            [3/16, 11/16, 1/16, 9/16],
            [15/16, 7/16, 13/16, 5/16]]"

definition orderedDither :: "f32 \<Rightarrow> int \<Rightarrow> int \<Rightarrow> int \<Rightarrow> f32" where
  "orderedDither val x0 y0 levels =
     (let step = quant_step levels;
          threshold = fmul (fsub (bayer ! nat (y0 mod 4) ! nat (x0 mod 4)) (1/2)) step;
          out = fadd val threshold
      in clampf out 0 255)"

section \<open>Chroma filters\<close>

text \<open>
  A raster is the vector \<open>px\<close> of \<open>w * h\<close> pixels in row-major order. The filters update it
  in place; the model returns the updated vector. \<^verbatim>\<open>std::exp\<close> on floats is the parameter
  \<open>ex\<close>. The C++ \<^verbatim>\<open>int\<close> is modelled by \<open>int\<close>: the indices stay below \<open>w * h\<close>. On a vector
  of \<open>w * h\<close> pixels every index the filters read or write is in range; outside that case
  the source's accesses are undefined and the model is not meant to describe them.
\<close>

definition blur_radius :: "f32 \<Rightarrow> int" where
  "blur_radius sigma = c_trunc (of_int \<lceil>fmul sigma 2\<rceil>)"

definition blur_kernel :: "(f32 \<Rightarrow> f32) \<Rightarrow> f32 \<Rightarrow> f32 list" where
  "blur_kernel ex sigma =
     (let radius = blur_radius sigma;
          raw = map (\<lambda>i. ex (fdiv (int_to_f32 (- (i * i))) (fmul (fmul 2 sigma) sigma)))
                    [- radius .. radius];
          total = foldl fadd 0 raw
      in map (\<lambda>k. fdiv k total) raw)"

definition blur_accum :: "f32 list \<Rightarrow> int \<Rightarrow> (int \<Rightarrow> YCbCr) \<Rightarrow> f32 \<times> f32" where
  "blur_accum kern radius src =
     foldl (\<lambda>(acb, acr) i.
              let k = kern ! nat (i + radius); s = src i
              in (fadd acb (fmul (cb s) k), fadd acr (fmul (cr s) k)))
           (0, 0) [- radius .. radius]"

definition set_chroma :: "YCbCr list \<Rightarrow> int \<Rightarrow> f32 \<times> f32 \<Rightarrow> YCbCr list" where
  \<comment> \<open>\<^verbatim>\<open>auto& d = px[i]; d.cb = ...; d.cr = ...;\<close>\<close>
  "set_chroma px i c = px[nat i := (px ! nat i)\<lparr> cb := fst c, cr := snd c \<rparr>]"

definition blur_horizontal :: "f32 list \<Rightarrow> int \<Rightarrow> YCbCr list \<Rightarrow> int \<Rightarrow> int \<Rightarrow> YCbCr list" where
  "blur_horizontal kern radius px0 w h =
     (let tmp = px0 in
      fold (\<lambda>yy. fold (\<lambda>xx px.
              set_chroma px (yy * w + xx)
                (blur_accum kern radius (\<lambda>i. tmp ! nat (yy * w + clamp_int (xx + i) 0 (w - 1)))))
            [0 .. w - 1])
        [0 .. h - 1] px0)"

definition blur_vertical :: "f32 list \<Rightarrow> int \<Rightarrow> YCbCr list \<Rightarrow> int \<Rightarrow> int \<Rightarrow> YCbCr list" where
  "blur_vertical kern radius px0 w h =
     (let tmp = px0 in
      fold (\<lambda>yy. fold (\<lambda>xx px.
              set_chroma px (yy * w + xx)
                (blur_accum kern radius (\<lambda>i. tmp ! nat (clamp_int (yy + i) 0 (h - 1) * w + xx))))
            [0 .. w - 1])
        [0 .. h - 1] px0)"

definition chromaBlur :: "(f32 \<Rightarrow> f32) \<Rightarrow> YCbCr list \<Rightarrow> int \<Rightarrow> int \<Rightarrow> f32 \<Rightarrow> YCbCr list" where
  "chromaBlur ex px w h sigma =
     (if sigma < fl 0.1 then px
      else let radius = blur_radius sigma;
               kern = blur_kernel ex sigma
           in blur_vertical kern radius (blur_horizontal kern radius px w h) w h)"

definition block_starts :: "int \<Rightarrow> int \<Rightarrow> int list" where
  \<comment> \<open>\<^verbatim>\<open>for (int y = 0; y < h; y += factor)\<close>\<close>
  "block_starts n factor = map (\<lambda>k. k * factor) [0 .. (n - 1) div factor]"

definition block_cells :: "int \<Rightarrow> int \<Rightarrow> int \<Rightarrow> int \<Rightarrow> int \<Rightarrow> int list" where
  \<comment> \<open>the indices of the block at \<open>(x0, y0)\<close>, rows first, cut at the raster's edges\<close>
  "block_cells w h factor y0 x0 =
     concat (map (\<lambda>dy. map (\<lambda>dx. (y0 + dy) * w + (x0 + dx)) [0 .. min (factor - 1) (w - 1 - x0)])
                 [0 .. min (factor - 1) (h - 1 - y0)])"

definition subsample_block :: "int \<Rightarrow> int \<Rightarrow> int \<Rightarrow> int \<Rightarrow> int \<Rightarrow> YCbCr list \<Rightarrow> YCbCr list" where
  "subsample_block w h factor y0 x0 px =
     (let cells = block_cells w h factor y0 x0;
          sumCb = foldl (\<lambda>a i. fadd a (cb (px ! nat i))) 0 cells;
          sumCr = foldl (\<lambda>a i. fadd a (cr (px ! nat i))) 0 cells;
          cnt = int (length cells);
          avgCb = fdiv sumCb (int_to_f32 cnt);
          avgCr = fdiv sumCr (int_to_f32 cnt)
      in fold (\<lambda>i p. set_chroma p i (avgCb, avgCr)) cells px)"

definition chromaSubsample :: "YCbCr list \<Rightarrow> int \<Rightarrow> int \<Rightarrow> int \<Rightarrow> YCbCr list" where
  "chromaSubsample px w h factor =
     (if factor \<le> 1 then px
      else fold (\<lambda>y0. fold (subsample_block w h factor y0) (block_starts w factor))
             (block_starts h factor) px)"

section \<open>Tier parameters\<close>

record TierParams =
  lumaLevels :: int
  chromaLevels :: int
  subsampleFactor :: int
  blurSigma :: f32
  useDithering :: bool

definition useTier1 :: "f32 \<Rightarrow> bool" where
  "useTier1 quality = (fsub (fl 0.7) (fl 0.000001) \<le> quality)"

definition tierParams :: "f32 \<Rightarrow> TierParams" where
  "tierParams quality =
     (let inv = fsub 1 quality in
      if useTier1 quality then
        let t = fdiv inv (fl 0.3) in
        \<lparr> lumaLevels = 256 - c_trunc (fmul t 64),
          chromaLevels = 256 - c_trunc (fmul t 192),
          subsampleFactor = 2,
          blurSigma = fmul t (fl 0.7),
          useDithering = True \<rparr>
      else
        let t = clampf (fdiv (fsub inv (fl 0.3)) (fl 0.7)) 0 1 in
        \<lparr> lumaLevels = max 4 (192 - c_trunc (fmul t 188)),
          chromaLevels = max 2 (64 - c_trunc (fmul t 62)),
          subsampleFactor = 2 + c_trunc (fmul t 6),
          blurSigma = fadd (fl 0.7) (fmul t (fl 0.6)),
          useDithering = (t < 1/2) \<rparr>)"

definition rgbMultiple :: "f32 \<Rightarrow> int" where
  "rgbMultiple quality = (if fl 0.4 < quality then 2 else 4)"

definition jpegQuality :: "f32 \<Rightarrow> int" where
  "jpegQuality quality = clamp_int (50 + c_trunc (fmul quality 45)) 1 100"

section \<open>Palette reduction\<close>

definition packRGB :: "8 word \<Rightarrow> 8 word \<Rightarrow> 8 word \<Rightarrow> 32 word" where
  "packRGB r0 g0 b0 = push_bit 16 (ucast r0) OR push_bit 8 (ucast g0) OR ucast b0"

definition pack :: "RGB \<Rightarrow> 32 word" where
  "pack p = packRGB (r p) (g p) (b p)"

text \<open>\<^verbatim>\<open>std::set<uint32_t>\<close> is an ascending list without duplicates.\<close>

fun scan_unique :: "32 word list \<Rightarrow> RGB list \<Rightarrow> 32 word list" where
  "scan_unique uniq [] = uniq"
| "scan_unique uniq (p # ps) =
     (let uniq' = insort_insert (pack p) uniq
      in if 256 < length uniq' then uniq' else scan_unique uniq' ps)"

definition palette_entry :: "32 word \<Rightarrow> 8 word list" where
  "palette_entry c = [ucast (drop_bit 16 c AND 255), ucast (drop_bit 8 c AND 255), ucast (c AND 255), 255]"

fun build_palette :: "32 word list \<Rightarrow> 8 word \<Rightarrow> 8 word list \<times> (32 word \<rightharpoonup> 8 word)
    \<Rightarrow> 8 word list \<times> (32 word \<rightharpoonup> 8 word)" where
  "build_palette [] idx acc = acc"
| "build_palette (c # cs) idx (palette, toIdx) =
     build_palette cs (idx + 1) (palette @ palette_entry c, toIdx(c \<mapsto> idx))"

definition lookup_idx :: "(32 word \<rightharpoonup> 8 word) \<Rightarrow> 32 word \<Rightarrow> 8 word" where
  \<comment> \<open>\<^verbatim>\<open>toIdx[c]\<close>: a missing key would be inserted with value 0\<close>
  "lookup_idx toIdx c = (case toIdx c of Some i \<Rightarrow> i | None \<Rightarrow> 0)"

datatype png_plan = Indexed "8 word list" "8 word list" | Truecolor

definition paletteReduce :: "RGB list \<Rightarrow> png_plan" where
  "paletteReduce data =
     (let uniq = scan_unique [] data in
      if uniq \<noteq> [] \<and> length uniq \<le> 256 then
        let (palette, toIdx) = build_palette uniq 0 ([], Map.empty);
            indices = map (\<lambda>p. lookup_idx toIdx (pack p)) data
        in Indexed indices palette
      else Truecolor)"

section \<open>The driver\<close>

text \<open>
  A decoded image: its width, its height and its \<open>w * h\<close> pixels in row-major order (the
  source keeps them as \<open>3 * w * h\<close> bytes and reads pixel \<open>i\<close> at \<open>3 * i\<close>, \<open>3 * i + 1\<close> and
  \<open>3 * i + 2\<close>).
\<close>

record image =
  img_w :: int
  img_h :: int
  img_data :: "RGB list"

text \<open>
  The codec libraries and \<^verbatim>\<open>std::exp\<close> are the collaborators of the driver: the decoder
  returns a raster or fails, each encoder reports success (\<open>write_png8_indexed\<close> stands for
  the source's wrapper of the same name around the lodepng encoder and its file writer).
  The driver's result is the list of calls it made on the raster filters and on the
  codecs, in program order, and the value it returns; the messages it prints are left out.
\<close>

record library =
  stbi_load :: "string \<Rightarrow> image option"
  stbi_write_jpg :: "string \<Rightarrow> int \<Rightarrow> int \<Rightarrow> RGB list \<Rightarrow> int \<Rightarrow> bool"
  stbi_write_png :: "string \<Rightarrow> int \<Rightarrow> int \<Rightarrow> RGB list \<Rightarrow> bool"
  write_png8_indexed :: "string \<Rightarrow> 8 word list \<Rightarrow> 8 word list \<Rightarrow> int \<Rightarrow> int \<Rightarrow> bool"
  std_exp :: "f32 \<Rightarrow> f32"

datatype event =
    Load string
  | ChromaBlur f32
  | ChromaSubsample int
  | WriteJpg string int int "RGB list" int
  | WritePng8 string "8 word list" "8 word list" int int
  | WritePng24 string int int "RGB list"

fun find_last_of :: "string \<Rightarrow> char \<Rightarrow> nat option" where
  "find_last_of [] c = None"
| "find_last_of (x # xs) c =
     (case find_last_of xs c of
        Some i \<Rightarrow> Some (Suc i)
      | None \<Rightarrow> if x = c then Some 0 else None)"

definition tolower :: "char \<Rightarrow> char" where
  \<comment> \<open>\<^verbatim>\<open>std::tolower\<close> in the C locale: the letters A to Z become a to z\<close>
  "tolower c = (let n = of_char c :: nat in if 65 \<le> n \<and> n \<le> 90 then char_of (n + 32) else c)"

definition to_ycbcr :: "int \<Rightarrow> int \<Rightarrow> RGB list \<Rightarrow> YCbCr list" where
  "to_ycbcr w h data = map (\<lambda>i. fromRGB (data ! nat i)) [0 .. w * h - 1]"

definition jpegDenoise :: "(f32 \<Rightarrow> f32) \<Rightarrow> f32 \<Rightarrow> image \<Rightarrow> event list \<times> RGB list" where
  "jpegDenoise ex quality img =
     (let w = img_w img; h = img_h img in
      if quality \<le> fl 0.6 then
        let ycbcr = chromaBlur ex (to_ycbcr w h (img_data img)) w h (fl 0.4)
        in ([ChromaBlur (fl 0.4)], map (\<lambda>i. toRGB (ycbcr ! nat i)) [0 .. w * h - 1])
      else ([], img_data img))"

definition jpegPath :: "library \<Rightarrow> string \<Rightarrow> f32 \<Rightarrow> image \<Rightarrow> event list \<times> bool" where
  "jpegPath lib output quality img =
     (let (calls, data) = jpegDenoise (std_exp lib) quality img;
          w = img_w img; h = img_h img;
          q = jpegQuality quality
      in (calls @ [WriteJpg output w h data q], stbi_write_jpg lib output w h data q))"

definition quantizeStage :: "TierParams \<Rightarrow> int \<Rightarrow> int \<Rightarrow> YCbCr list \<Rightarrow> YCbCr list" where
  "quantizeStage tp w h px0 =
     (if useDithering tp then
        fold (\<lambda>yy. fold (\<lambda>xx px.
                let idx = nat (yy * w + xx); p = px ! idx;
                    dY = orderedDither (y p) xx yy (lumaLevels tp)
                in px[idx := \<lparr> y = quantize dY (lumaLevels tp),
                              cb = quantize (cb p) (chromaLevels tp),
                              cr = quantize (cr p) (chromaLevels tp) \<rparr>])
              [0 .. w - 1])
          [0 .. h - 1] px0
      else map (\<lambda>p. \<lparr> y = quantize (y p) (lumaLevels tp),
                       cb = quantize (cb p) (chromaLevels tp),
                       cr = quantize (cr p) (chromaLevels tp) \<rparr>) px0)"

definition evenRoundStage :: "TierParams \<Rightarrow> YCbCr list \<Rightarrow> YCbCr list" where
  "evenRoundStage tp px =
     (if useDithering tp then
        map (\<lambda>p. p\<lparr> y := clampf (fmul (of_int (c_round (fdiv (y p) 2))) 2) 0 255 \<rparr>) px
      else px)"

definition pngFilter :: "(f32 \<Rightarrow> f32) \<Rightarrow> TierParams \<Rightarrow> int \<Rightarrow> int \<Rightarrow> YCbCr list
    \<Rightarrow> event list \<times> YCbCr list" where
  "pngFilter ex tp w h px =
     (let (calls, px1) =
            (if 0 < blurSigma tp then ([ChromaBlur (blurSigma tp)], chromaBlur ex px w h (blurSigma tp))
             else ([], px))
      in (calls @ [ChromaSubsample (subsampleFactor tp)],
          chromaSubsample px1 w h (subsampleFactor tp)))"

definition pngReconstruct :: "(f32 \<Rightarrow> f32) \<Rightarrow> f32 \<Rightarrow> image \<Rightarrow> event list \<times> RGB list" where
  "pngReconstruct ex quality img =
     (let w = img_w img; h = img_h img;
          ycbcr = to_ycbcr w h (img_data img);
          tp = tierParams quality;
          (calls, filtered) = pngFilter ex tp w h ycbcr;
          quantized = evenRoundStage tp (quantizeStage tp w h filtered)
      in (calls, map (\<lambda>i. toRGBRounded (quantized ! nat i) (rgbMultiple quality)) [0 .. w * h - 1]))"

definition pngPath :: "library \<Rightarrow> string \<Rightarrow> f32 \<Rightarrow> image \<Rightarrow> event list \<times> bool" where
  "pngPath lib output quality img =
     (let (calls, data) = pngReconstruct (std_exp lib) quality img;
          w = img_w img; h = img_h img
      in case paletteReduce data of
           Indexed indices palette \<Rightarrow>
             if write_png8_indexed lib output indices palette w h
             then (calls @ [WritePng8 output indices palette w h], True)
             else (calls @ [WritePng8 output indices palette w h, WritePng24 output w h data],
                   stbi_write_png lib output w h data)
         | Truecolor \<Rightarrow>
             (calls @ [WritePng24 output w h data], stbi_write_png lib output w h data))"

definition output_ext :: "string \<Rightarrow> string option" where
  \<comment> \<open>the text after the last dot, in lower case; \<open>None\<close> when the path has no dot\<close>
  "output_ext output =
     (case find_last_of output (CHR ''.'') of
        None \<Rightarrow> None
      | Some dotPos \<Rightarrow> Some (map tolower (drop (dotPos + 1) output)))"

text \<open>
  The driver first rejects a quality outside \<open>[0, 1]\<close>. Its second test,
  \<^verbatim>\<open>std::isfinite\<close>, holds for every value of the model, which has finite floats only.
\<close>

definition compressImage :: "library \<Rightarrow> string \<Rightarrow> string \<Rightarrow> f32 \<Rightarrow> event list \<times> bool" where
  "compressImage lib input output compression =
     (if \<not> (0 \<le> compression \<and> compression \<le> 1) then ([], False)
      else
        let quality = compression in
        case output_ext output of
          None \<Rightarrow> ([], False)
        | Some ext \<Rightarrow>
            (let isJPEG = (ext = ''jpg'' \<or> ext = ''jpeg'');
                 isPNG = (ext = ''png'')
             in case stbi_load lib input of
                  None \<Rightarrow> ([Load input], False)
                | Some img \<Rightarrow>
                    if isJPEG then
                      (case jpegPath lib output quality img of
                         (calls, ok) \<Rightarrow> (Load input # calls, ok))
                    else if isPNG then
                      (case pngPath lib output quality img of
                         (calls, ok) \<Rightarrow> (Load input # calls, ok))
                    else ([Load input], False)))"

text \<open>The events that are calls of a raster filter.\<close>

fun filter_call :: "event \<Rightarrow> bool" where
  "filter_call (ChromaBlur sigma) = True"
| "filter_call (ChromaSubsample factor) = True"
| "filter_call ev = False"

section \<open>Sample collaborators\<close>

text \<open>
  A library whose decoder returns a single black pixel and whose encoders succeed, with the
  correctly rounded exponential; the closed examples below run the driver on it.
\<close>

definition expf :: "f32 \<Rightarrow> f32" where
  "expf x = fl (exp x)"

definition sample_image :: image where
  "sample_image = \<lparr> img_w = 1, img_h = 1, img_data = [\<lparr> r = 0, g = 0, b = 0 \<rparr>] \<rparr>"

definition sample_lib :: library where
  "sample_lib =
     \<lparr> stbi_load = (\<lambda>path. Some sample_image),
       stbi_write_jpg = (\<lambda>path w h data q. True),
       stbi_write_png = (\<lambda>path w h data. True),
       write_png8_indexed = (\<lambda>path indices palette w h. True),
       std_exp = expf \<rparr>"

definition two_colours :: "RGB list" where
  "two_colours = [\<lparr> r = 0, g = 0, b = 0 \<rparr>, \<lparr> r = 255, g = 255, b = 255 \<rparr>, \<lparr> r = 0, g = 0, b = 0 \<rparr>]"


section \<open>The formulas of the specification\<close>

text \<open>
  The claims about the JPEG quality and the tier planner state their formulas with
  rounding to the nearest integer. These two definitions follow the claims' words; they
  are compared with \<open>jpegQuality\<close> and \<open>tierParams\<close>, which follow the source.
\<close>

definition spec_jpegQuality :: "f32 \<Rightarrow> int" where
  "spec_jpegQuality quality = clamp_int (50 + c_round (fmul quality 45)) 1 100"

definition spec_tierParams :: "f32 \<Rightarrow> TierParams" where
  "spec_tierParams quality =
     (let inv = fsub 1 quality in
      if fl 0.7 \<le> quality then
        let t = fdiv inv (fl 0.3) in
        \<lparr> lumaLevels = 256 - c_round (fmul t 64),
          chromaLevels = 256 - c_round (fmul t 192),
          subsampleFactor = 2,
          blurSigma = fmul t (fl 0.7),
          useDithering = True \<rparr>
      else
        let t = clampf (fdiv (fsub inv (fl 0.3)) (fl 0.7)) 0 1 in
        \<lparr> lumaLevels = max 4 (192 - c_round (fmul t 188)),
          chromaLevels = max 2 (64 - c_round (fmul t 62)),
          subsampleFactor = 2 + c_round (fmul t 6),
          blurSigma = fadd (fl 0.7) (fmul t (fl 0.6)),
          useDithering = (t < 1/2) \<rparr>)"

text \<open>A channel value that is a multiple of \<open>n\<close>, or 255.\<close>

definition channel_ok :: "int \<Rightarrow> 8 word \<Rightarrow> bool" where
  "channel_ok n c = (n dvd uint c \<or> c = 255)"


section \<open>Properties of binary32 rounding\<close>

lemma rne_of_int: "rne (of_int n) = n"
  by (simp add: rne_def)

lemma rne_err: "\<bar>of_int (rne x) - x\<bar> \<le> 1/2"
  unfolding rne_def Let_def by (auto; linarith)

lemma rne_cases: "rne x = \<lfloor>x\<rfloor> \<or> rne x = \<lfloor>x\<rfloor> + 1"
  unfolding rne_def Let_def by auto

lemma rne_mono: "x \<le> z \<Longrightarrow> rne x \<le> rne z"
proof -
  assume xz: "x \<le> z"
  have fm: "\<lfloor>x\<rfloor> \<le> \<lfloor>z\<rfloor>" using xz by (rule floor_mono)
  show ?thesis
  proof (cases "\<lfloor>x\<rfloor> = \<lfloor>z\<rfloor>")
    case True
    then show ?thesis using xz unfolding rne_def Let_def by (auto; linarith)
  next
    case False
    then have lt: "\<lfloor>x\<rfloor> + 1 \<le> \<lfloor>z\<rfloor>" using fm by linarith
    have "rne x \<le> \<lfloor>x\<rfloor> + 1" using rne_cases [of x] by linarith
    moreover have "\<lfloor>z\<rfloor> \<le> rne z" using rne_cases [of z] by linarith
    ultimately show ?thesis using lt by linarith
  qed
qed

lemma rne_minus: "rne (- x) = - rne x"
proof (cases "x = of_int \<lfloor>x\<rfloor>")
  case True
  have "rne (- of_int \<lfloor>x\<rfloor>) = - rne (of_int \<lfloor>x\<rfloor>)"
    using rne_of_int [of "- \<lfloor>x\<rfloor>"] rne_of_int [of "\<lfloor>x\<rfloor>"] by simp
  then show ?thesis using True by simp
next
  case False
  have lt: "of_int \<lfloor>x\<rfloor> < x" using False by linarith
  have ub: "x < of_int \<lfloor>x\<rfloor> + 1" by linarith
  have f: "\<lfloor>- x\<rfloor> = - \<lfloor>x\<rfloor> - 1"
  proof (rule floor_unique)
    show "of_int (- \<lfloor>x\<rfloor> - 1) \<le> - x" by simp linarith
    show "- x < of_int (- \<lfloor>x\<rfloor> - 1) + 1" using lt by simp
  qed
  consider "x - of_int \<lfloor>x\<rfloor> < 1/2" | "x - of_int \<lfloor>x\<rfloor> = 1/2" | "1/2 < x - of_int \<lfloor>x\<rfloor>"
    by linarith
  then show ?thesis
  proof cases
    case 1
    then show ?thesis unfolding rne_def Let_def f by simp
  next
    case 2
    then show ?thesis unfolding rne_def Let_def f by simp
  next
    case 3
    then show ?thesis unfolding rne_def Let_def f by simp
  qed
qed

lemma exp_search_range: "- 126 \<le> exp_search n a \<and> exp_search n a \<le> int n - 126"
  by (induction n) auto

lemma exp_search_lower: "exp_search n a \<noteq> - 126 \<Longrightarrow> 2 powi (exp_search n a) \<le> a"
  by (induction n) (auto split: if_splits)

lemma exp_search_upper: "a < 2 powi (int n - 125) \<Longrightarrow> a < 2 powi (exp_search n a + 1)"
proof (induction n)
  case 0
  then show ?case by simp
next
  case (Suc n)
  show ?case
  proof (cases "2 powi (int n - 125) \<le> a")
    case True
    then show ?thesis using Suc.prems by (simp add: algebra_simps)
  next
    case False
    then show ?thesis using Suc.IH by simp
  qed
qed

lemma powi2_mono: "i \<le> j \<Longrightarrow> (2::real) powi i \<le> 2 powi j"
  by (rule power_int_increasing) simp_all

lemma powi2_strict: "i < j \<Longrightarrow> (2::real) powi i < 2 powi j"
  by (rule power_int_strict_increasing) simp_all

lemma exp_search_eq:
  assumes "- 126 \<le> e" "e \<le> int n - 126" "2 powi e \<le> a \<or> e = - 126" "a < 2 powi (e + 1) \<or> e = int n - 126"
  shows "exp_search n a = e"
  using assms
proof (induction n)
  case 0
  then show ?case by simp
next
  case (Suc n)
  show ?case
  proof (cases "2 powi (int n - 125) \<le> a")
    case True
    have "e = int n - 125"
    proof (rule ccontr)
      assume ne: "e \<noteq> int n - 125"
      then have "e + 1 \<le> int n - 125" using Suc.prems by simp
      then have "(2::real) powi (e + 1) \<le> 2 powi (int n - 125)" by (rule powi2_mono)
      moreover have "a < 2 powi (e + 1)" using Suc.prems ne by auto
      ultimately show False using True by linarith
    qed
    then show ?thesis using True by simp
  next
    case False
    have ne: "e \<noteq> int n - 125"
    proof
      assume eq: "e = int n - 125"
      then have "2 powi e \<le> a" using Suc.prems by auto
      then show False using False eq by simp
    qed
    have "exp_search n a = e"
    proof (rule Suc.IH)
      show "- 126 \<le> e" by fact
      show "e \<le> int n - 126" using Suc.prems ne by simp
      show "2 powi e \<le> a \<or> e = - 126" by fact
      show "a < 2 powi (e + 1) \<or> e = int n - 126"
      proof (cases "e = int n - 126")
        case True then show ?thesis by simp
      next
        case False
        then have "a < 2 powi (e + 1)" using Suc.prems ne by auto
        then show ?thesis by simp
      qed
    qed
    then show ?thesis using False by simp
  qed
qed

lemma f32_exponent_range: "- 126 \<le> f32_exponent x \<and> f32_exponent x \<le> 127"
  using exp_search_range [of 253 "\<bar>x\<bar>"] by (simp add: f32_exponent_def)

lemma f32_exponent_eq:
  "2 powi e \<le> \<bar>x\<bar> \<Longrightarrow> \<bar>x\<bar> < 2 powi (e + 1) \<Longrightarrow> - 126 \<le> e \<Longrightarrow> e \<le> 127 \<Longrightarrow> f32_exponent x = e"
  unfolding f32_exponent_def by (rule exp_search_eq) simp_all

lemma f32_exponent_lower: "f32_exponent x \<noteq> - 126 \<Longrightarrow> 2 powi (f32_exponent x) \<le> \<bar>x\<bar>"
  unfolding f32_exponent_def by (rule exp_search_lower)

lemma f32_exponent_upper: "\<bar>x\<bar> < 2 powi 128 \<Longrightarrow> \<bar>x\<bar> < 2 powi (f32_exponent x + 1)"
  unfolding f32_exponent_def using exp_search_upper [of "\<bar>x\<bar>" 253] by simp

lemma f32_exponent_minus: "f32_exponent (- x) = f32_exponent x"
  by (simp add: f32_exponent_def)

lemma fl_minus: "fl (- x) = - fl x"
  by (simp add: fl_def Let_def f32_exponent_minus rne_minus)

lemma fl_0: "fl 0 = 0"
  by (simp add: fl_def Let_def rne_def)

lemma fl_binade:
  "2 powi e \<le> \<bar>x\<bar> \<Longrightarrow> \<bar>x\<bar> < 2 powi (e + 1) \<Longrightarrow> - 126 \<le> e \<Longrightarrow> e \<le> 127 \<Longrightarrow>
   fl x = of_int (rne (x / 2 powi (e - 23))) * 2 powi (e - 23)"
  by (simp add: fl_def Let_def f32_exponent_eq)

lemma fl_err_exp: "\<bar>fl x - x\<bar> \<le> 2 powi (f32_exponent x - 24)"
proof -
  define u :: real where "u = 2 powi (f32_exponent x - 23)"
  define a :: real where "a = of_int (rne (x / u))"
  have upos: "0 < u" by (simp add: u_def)
  have "\<bar>a - x / u\<bar> \<le> 1/2" unfolding a_def by (rule rne_err)
  then have "\<bar>a - x / u\<bar> * u \<le> 1/2 * u"
    using upos by (simp add: mult_right_mono)
  moreover have "\<bar>a - x / u\<bar> * u = \<bar>a * u - x\<bar>"
  proof -
    have "(a - x / u) * u = a * u - x"
      using upos by (simp add: left_diff_distrib)
    moreover have "\<bar>a - x / u\<bar> * u = \<bar>(a - x / u) * u\<bar>"
      using upos by (simp add: abs_mult)
    ultimately show ?thesis by simp
  qed
  moreover have "1/2 * u = 2 powi (f32_exponent x - 24)"
    by (simp add: u_def power_int_diff)
  moreover have "fl x = a * u"
    by (simp add: fl_def Let_def u_def a_def)
  ultimately show ?thesis by metis
qed

lemma exp_search_mono: "a \<le> c \<Longrightarrow> exp_search n a \<le> exp_search n c"
proof (induction n)
  case 0
  then show ?case by simp
next
  case (Suc n)
  have r: "exp_search n a \<le> int n - 126" using exp_search_range [of n a] by simp
  show ?case using Suc r by auto
qed

lemma exp_search_upper': "exp_search n a < int n - 126 \<Longrightarrow> a < 2 powi (exp_search n a + 1)"
proof (induction n)
  case 0
  then show ?case by simp
next
  case (Suc n)
  have r: "exp_search n a \<le> int n - 126" "- 126 \<le> exp_search n a"
    using exp_search_range [of n a] by simp_all
  show ?case
  proof (cases "2 powi (int n - 125) \<le> a")
    case True
    then show ?thesis using Suc.prems by simp
  next
    case False
    show ?thesis
    proof (cases "exp_search n a < int n - 126")
      case True
      then show ?thesis using Suc.IH False by simp
    next
      case f2: False
      then have "exp_search n a + 1 = int n - 125" using r by simp
      then have "(2::real) powi (exp_search n a + 1) = 2 powi (int n - 125)" by (rule arg_cong)
      then show ?thesis using False by simp
    qed
  qed
qed

lemma f32_exponent_mono: "\<bar>x\<bar> \<le> \<bar>z\<bar> \<Longrightarrow> f32_exponent x \<le> f32_exponent z"
  unfolding f32_exponent_def by (rule exp_search_mono)

lemma f32_exponent_upper': "f32_exponent x < 127 \<Longrightarrow> \<bar>x\<bar> < 2 powi (f32_exponent x + 1)"
  unfolding f32_exponent_def using exp_search_upper' [of 253 "\<bar>x\<bar>"] by simp

lemma ulp_top: "(2::real) powi (e + 1) = 2 powi (e - 23) * 16777216"
proof -
  have "(2::real) powi (e + 1) = 2 powi ((e - 23) + 24)"
    by (rule arg_cong [where f = "power_int 2"]) simp
  also have "\<dots> = 2 powi (e - 23) * 2 powi 24" by (subst power_int_add) simp_all
  finally show ?thesis by simp
qed

lemma ulp_bot: "(2::real) powi e = 2 powi (e - 23) * 8388608"
proof -
  have "(2::real) powi e = 2 powi ((e - 23) + 23)"
    by (rule arg_cong [where f = "power_int 2"]) simp
  also have "\<dots> = 2 powi (e - 23) * 2 powi 23" by (subst power_int_add) simp_all
  finally show ?thesis by simp
qed

lemma fl_nonneg: "0 \<le> x \<Longrightarrow> 0 \<le> fl x"
proof -
  assume "0 \<le> x"
  then have "0 \<le> x / 2 powi (f32_exponent x - 23)" by simp
  then have "rne 0 \<le> rne (x / 2 powi (f32_exponent x - 23))" by (rule rne_mono)
  then have "0 \<le> rne (x / 2 powi (f32_exponent x - 23))" using rne_of_int [of 0] by simp
  then show ?thesis by (simp add: fl_def Let_def)
qed

lemma fl_le_binade_top:
  assumes "0 \<le> x" "f32_exponent x < 127"
  shows "fl x \<le> 2 powi (f32_exponent x + 1)"
proof -
  define u :: real where "u = 2 powi (f32_exponent x - 23)"
  have upos: "0 < u" by (simp add: u_def)
  have "x < 2 powi (f32_exponent x + 1)" using f32_exponent_upper' [OF assms(2)] assms(1) by simp
  then have "x < u * 16777216" by (simp add: ulp_top u_def)
  then have "x / u \<le> of_int 16777216" using upos by (simp add: field_simps)
  then have "rne (x / u) \<le> rne (of_int 16777216)" by (rule rne_mono)
  then have "rne (x / u) \<le> 16777216" by (simp only: rne_of_int)
  then have "of_int (rne (x / u)) * u \<le> 16777216 * u"
    using upos by (simp add: mult_right_mono)
  then show ?thesis by (simp add: fl_def Let_def u_def [symmetric] ulp_top [of "f32_exponent x"] mult.commute)
qed

lemma fl_ge_binade_bot:
  assumes "0 \<le> x" "f32_exponent x \<noteq> - 126"
  shows "2 powi (f32_exponent x) \<le> fl x"
proof -
  define u :: real where "u = 2 powi (f32_exponent x - 23)"
  have upos: "0 < u" by (simp add: u_def)
  have "2 powi (f32_exponent x) \<le> x" using f32_exponent_lower [OF assms(2)] assms(1) by simp
  then have "u * 8388608 \<le> x" by (simp add: ulp_bot [of "f32_exponent x"] u_def)
  then have "of_int 8388608 \<le> x / u" using upos by (simp add: field_simps)
  then have "rne (of_int 8388608) \<le> rne (x / u)" by (rule rne_mono)
  then have "8388608 \<le> rne (x / u)" by (simp only: rne_of_int)
  then have "8388608 * u \<le> of_int (rne (x / u)) * u"
    using upos by (simp add: mult_right_mono)
  then show ?thesis by (simp add: fl_def Let_def u_def [symmetric] ulp_bot [of "f32_exponent x"] mult.commute)
qed

lemma fl_mono_nonneg:
  assumes "0 \<le> x" "x \<le> z"
  shows "fl x \<le> fl z"
proof -
  have z0: "0 \<le> z" using assms by simp
  have le: "f32_exponent x \<le> f32_exponent z" using assms by (intro f32_exponent_mono) simp
  show ?thesis
  proof (cases "f32_exponent x = f32_exponent z")
    case True
    define u :: real where "u = 2 powi (f32_exponent z - 23)"
    have upos: "0 < u" by (simp add: u_def)
    have "x / u \<le> z / u" using assms upos by (simp add: divide_right_mono)
    then have "rne (x / u) \<le> rne (z / u)" by (rule rne_mono)
    then have "of_int (rne (x / u)) * u \<le> of_int (rne (z / u)) * u"
      using upos by (simp add: mult_right_mono)
    then show ?thesis by (simp add: fl_def Let_def True u_def)
  next
    case False
    then have lt: "f32_exponent x < f32_exponent z" using le by simp
    have "f32_exponent z \<le> 127" using f32_exponent_range [of z] by simp
    then have "f32_exponent x < 127" using lt by simp
    then have a: "fl x \<le> 2 powi (f32_exponent x + 1)" using assms(1) by (intro fl_le_binade_top)
    have "f32_exponent z \<noteq> - 126" using lt f32_exponent_range [of x] by simp
    then have c: "2 powi (f32_exponent z) \<le> fl z" using z0 by (intro fl_ge_binade_bot)
    have "(2::real) powi (f32_exponent x + 1) \<le> 2 powi (f32_exponent z)"
      using lt by (intro powi2_mono) simp
    then show ?thesis using a c by linarith
  qed
qed

lemma fl_mono: "x \<le> z \<Longrightarrow> fl x \<le> fl z"
proof -
  assume xz: "x \<le> z"
  consider "0 \<le> x" | "x < 0" "0 \<le> z" | "x < 0" "z < 0" by linarith
  then show ?thesis
  proof cases
    case 1
    then show ?thesis using xz by (rule fl_mono_nonneg)
  next
    case 2
    have "0 \<le> fl (- x)" using 2 by (intro fl_nonneg) simp
    then have "fl x \<le> 0" by (simp add: fl_minus)
    moreover have "0 \<le> fl z" using 2 by (intro fl_nonneg)
    ultimately show ?thesis by linarith
  next
    case 3
    have "fl (- z) \<le> fl (- x)" using 3 xz by (intro fl_mono_nonneg) simp_all
    then show ?thesis by (simp add: fl_minus)
  qed
qed

lemma fl_err_lt: "\<bar>x\<bar> < 2 powi k \<Longrightarrow> - 125 \<le> k \<Longrightarrow> \<bar>fl x - x\<bar> \<le> 2 powi (k - 25)"
proof -
  assume b: "\<bar>x\<bar> < 2 powi k" and k: "- 125 \<le> k"
  have "f32_exponent x \<le> k - 1"
  proof (cases "f32_exponent x = - 126")
    case True
    then show ?thesis using k by simp
  next
    case False
    then have "2 powi (f32_exponent x) \<le> \<bar>x\<bar>" by (rule f32_exponent_lower)
    then have "(2::real) powi (f32_exponent x) < 2 powi k" using b by linarith
    have "f32_exponent x < k"
    proof (rule ccontr)
      assume "\<not> f32_exponent x < k"
      then have "(2::real) powi k \<le> 2 powi (f32_exponent x)" by (intro powi2_mono) simp
      then show False using \<open>(2::real) powi (f32_exponent x) < 2 powi k\<close> by linarith
    qed
    then show ?thesis by simp
  qed
  then have "(2::real) powi (f32_exponent x - 24) \<le> 2 powi (k - 25)"
    by (intro powi2_mono) simp
  then show ?thesis using fl_err_exp [of x] by linarith
qed

lemma c_round_mono: "x \<le> z \<Longrightarrow> c_round x \<le> c_round z"
  unfolding c_round_def by (auto; linarith)

lemma c_round_of_int: "c_round (of_int n) = n"
  unfolding c_round_def by (auto; linarith)

lemma c_round_nonneg: "0 \<le> x \<Longrightarrow> 0 \<le> c_round x"
  unfolding c_round_def by (auto; linarith)

lemma c_trunc_floor: "0 \<le> x \<Longrightarrow> c_trunc x = \<lfloor>x\<rfloor>"
  by (simp add: c_trunc_def)

section \<open>Evaluation at concrete inputs\<close>

lemma fl_eq:
  assumes "2 powi e \<le> \<bar>x\<bar>" "\<bar>x\<bar> < 2 powi (e + 1)" "- 126 \<le> e" "e \<le> 127"
    and "rne (x / 2 powi (e - 23)) = m" "v = of_int m * 2 powi (e - 23)"
  shows "fl x = v"
  using fl_binade [OF assms(1-4)] assms(5,6) by simp

lemma fl_45: "fl (45) = 45"
  by (rule fl_eq [where e = 5 and m = 11796480]) (simp_all add: rne_def power_int_minus)

lemma fl_03: "fl (0.3) = 5033165 / 16777216"
  by (rule fl_eq [where e = "- 2" and m = 10066330]) (simp_all add: rne_def power_int_minus)

lemma fl_07: "fl (0.7) = 11744051 / 16777216"
  by (rule fl_eq [where e = "- 1" and m = 11744051]) (simp_all add: rne_def power_int_minus)

lemma fl_eps: "fl (1 / 1000000) = 8796093 / 8796093022208"
  by (rule fl_eq [where e = "- 20" and m = 8796093]) (simp_all add: rne_def power_int_minus)

lemma tier_threshold_val: "fsub (11744051 / 16777216) (8796093 / 8796093022208) = 5872017 / 8388608"
  unfolding fsub_def by (rule fl_eq [where e = "- 1" and m = 11744034]) (simp_all add: rne_def power_int_minus)

lemma fsub_1_78: "fsub 1 (7 / 8) = 1 / 8"
  unfolding fsub_def by (rule fl_eq [where e = "- 3" and m = 8388608]) (simp_all add: rne_def power_int_minus)

lemma fdiv_t78: "fdiv (1 / 8) (5033165 / 16777216) = 13981013 / 33554432"
  unfolding fdiv_def by (rule fl_eq [where e = "- 2" and m = 13981013]) (simp_all add: rne_def power_int_minus)

lemma fmul_t78_64: "fmul (13981013 / 33554432) 64 = 13981013 / 524288"
  unfolding fmul_def by (rule fl_eq [where e = 4 and m = 13981013]) (simp_all add: rne_def power_int_minus)

lemma fmul_t78_192: "fmul (13981013 / 33554432) 192 = 80"
  unfolding fmul_def by (rule fl_eq [where e = 6 and m = 10485760]) (simp_all add: rne_def power_int_minus)

lemma fmul_34_45: "fmul (3 / 4) 45 = 135 / 4"
  unfolding fmul_def by (rule fl_eq [where e = 5 and m = 8847360]) (simp_all add: rne_def power_int_minus)

lemma fl_06: "fl (3 / 5) = 5033165 / 8388608"
  by (rule fl_eq [where e = "- 1" and m = 10066330]) (simp_all add: rne_def power_int_minus)

lemma fl_04: "fl (2 / 5) = 13421773 / 33554432"
  by (rule fl_eq [where e = "- 2" and m = 13421773]) (simp_all add: rne_def power_int_minus)

lemma fl_01: "fl (1 / 10) = 13421773 / 134217728"
  by (rule fl_eq [where e = "- 4" and m = 13421773]) (simp_all add: rne_def power_int_minus)

lemma fl_c07: "fl (11744051 / 16777216) = 11744051 / 16777216"
  by (rule fl_eq [where e = "- 1" and m = 11744051]) (simp_all add: rne_def power_int_minus)



section \<open>The tier planner and the JPEG quality\<close>

lemma fmul_nonneg: "0 \<le> a \<Longrightarrow> 0 \<le> c \<Longrightarrow> 0 \<le> fmul a c"
  unfolding fmul_def by (rule fl_nonneg) simp

lemma fdiv_nonneg: "0 \<le> a \<Longrightarrow> 0 \<le> c \<Longrightarrow> 0 \<le> fdiv a c"
  unfolding fdiv_def by (rule fl_nonneg) simp

lemma clampf_range: "lo \<le> hi \<Longrightarrow> lo \<le> clampf v lo hi \<and> clampf v lo hi \<le> hi"
  by (simp add: clampf_def)

text \<open>
  Counterexample to claim C7 as stated (the encoder's quality is
  \<open>clamp (50 + round (quality * 45)) 1 100\<close> with rounding to nearest): at quality 0.75
  the product is 33.75, the cast to \<^verbatim>\<open>int\<close> discards the fraction and the driver passes
  83, where rounding to nearest gives 84.
\<close>

theorem jpegQuality_counterexample:
  "jpegQuality (3/4) = 83 \<and> spec_jpegQuality (3/4) = 84"
  by (simp add: jpegQuality_def spec_jpegQuality_def fmul_34_45 c_trunc_def c_round_def clamp_int_def)

lemma fmul_45_range:
  assumes "0 \<le> q" "q \<le> 1"
  shows "0 \<le> fmul q 45 \<and> fmul q 45 \<le> 45"
proof -
  have "fl (q * 45) \<le> fl 45" using assms by (intro fl_mono) simp
  moreover have "0 \<le> fl (q * 45)" using assms by (intro fl_nonneg) simp
  ultimately show ?thesis by (simp add: fmul_def fl_45)
qed

text \<open>
  Claim C7, amended: for every quality in \<open>[0, 1]\<close> the JPEG path passes
  \<open>50 + \<lfloor>quality * 45\<rfloor>\<close> (the float product, rounded down) to the JPEG encoder; the value
  lies in \<open>50..95\<close>, so the clamp to \<open>1..100\<close> never changes it.
\<close>

theorem jpegQuality_truncates:
  assumes "0 \<le> q" "q \<le> 1"
  shows "jpegQuality q = 50 + \<lfloor>fmul q 45\<rfloor> \<and> 50 \<le> jpegQuality q \<and> jpegQuality q \<le> 95
    \<and> fst (jpegPath lib output q img) =
        fst (jpegDenoise (std_exp lib) q img) @
        [WriteJpg output (img_w img) (img_h img) (snd (jpegDenoise (std_exp lib) q img))
           (50 + \<lfloor>fmul q 45\<rfloor>)]"
proof -
  have rng: "0 \<le> fmul q 45" "fmul q 45 \<le> 45" using fmul_45_range [OF assms] by simp_all
  define n where "n = \<lfloor>fmul q 45\<rfloor>"
  have fl0: "0 \<le> n" unfolding n_def using rng by simp
  have fl45: "n \<le> 45" unfolding n_def using rng(2) by (simp add: floor_le_iff)
  have tr: "c_trunc (fmul q 45) = n" unfolding n_def using rng(1) by (rule c_trunc_floor)
  have "clamp_int (50 + n) 1 100 = 50 + n"
    unfolding clamp_int_def using fl0 fl45 by simp
  then have q: "jpegQuality q = 50 + n"
    by (simp add: jpegQuality_def tr)
  have p: "fst (jpegPath lib output q img) =
        fst (jpegDenoise (std_exp lib) q img) @
        [WriteJpg output (img_w img) (img_h img) (snd (jpegDenoise (std_exp lib) q img)) (jpegQuality q)]"
    by (simp add: jpegPath_def Let_def split: prod.splits)
  show ?thesis using q p fl0 fl45 unfolding n_def by simp
qed

text \<open>The amended claim C7 at quality 0.75.\<close>

theorem jpegQuality_truncates_witness:
  "(0::real) \<le> 3/4 \<and> (3/4::real) \<le> 1 \<and> jpegQuality (3/4) = 50 + \<lfloor>fmul (3/4) 45\<rfloor>
     \<and> \<lfloor>fmul (3/4) 45\<rfloor> = 33"
  using jpegQuality_truncates [of "3/4"] by (simp add: fmul_34_45)

text \<open>
  Counterexample to claim C1 as stated (the level counts use rounding to nearest): at
  quality 0.875 the program is in Tier 1 with \<open>t * 64\<close> about 26.67; the cast discards
  the fraction, so \<open>lumaLevels\<close> is 230, where the formula with rounding gives 229.
\<close>

theorem tierParams_counterexample:
  "lumaLevels (tierParams (7/8)) = 230 \<and> lumaLevels (spec_tierParams (7/8)) = 229"
  by (simp add: tierParams_def spec_tierParams_def useTier1_def Let_def fl_03 fl_07 fl_eps
      tier_threshold_val fsub_1_78 fdiv_t78 fmul_t78_64 c_trunc_def c_round_def)

text \<open>
  Claim C1, amended: for every quality in \<open>[0, 1]\<close> the tier parameters are those of the
  stated formulas with every \<open>round\<close> replaced by rounding down (\<open>\<lfloor>t * 64\<rfloor>\<close>,
  \<open>\<lfloor>t * 192\<rfloor>\<close>, \<open>\<lfloor>t * 188\<rfloor>\<close>, \<open>\<lfloor>t * 62\<rfloor>\<close>, \<open>\<lfloor>t * 6\<rfloor>\<close>), all arithmetic in binary32, and
  Tier 1 selected when \<open>quality \<ge> 0.7f - 1e-6f\<close>.
\<close>

theorem tierParams_truncates:
  assumes "0 \<le> q" "q \<le> 1"
  shows "tierParams q =
     (if fsub (fl 0.7) (fl 0.000001) \<le> q then
        (let t = fdiv (fsub 1 q) (fl 0.3) in
         \<lparr> lumaLevels = 256 - \<lfloor>fmul t 64\<rfloor>,
           chromaLevels = 256 - \<lfloor>fmul t 192\<rfloor>,
           subsampleFactor = 2,
           blurSigma = fmul t (fl 0.7),
           useDithering = True \<rparr>)
      else
        (let t = clampf (fdiv (fsub (fsub 1 q) (fl 0.3)) (fl 0.7)) 0 1 in
         \<lparr> lumaLevels = max 4 (192 - \<lfloor>fmul t 188\<rfloor>),
           chromaLevels = max 2 (64 - \<lfloor>fmul t 62\<rfloor>),
           subsampleFactor = 2 + \<lfloor>fmul t 6\<rfloor>,
           blurSigma = fadd (fl 0.7) (fmul t (fl 0.6)),
           useDithering = (t < 1/2) \<rparr>))"
proof -
  have inv: "0 \<le> fsub 1 q" unfolding fsub_def using assms by (intro fl_nonneg) simp
  have c03: "0 \<le> fl 0.3" by (simp add: fl_03)
  have t1: "0 \<le> fdiv (fsub 1 q) (fl 0.3)" using inv c03 by (rule fdiv_nonneg)
  have t2: "0 \<le> clampf (fdiv (fsub (fsub 1 q) (fl 0.3)) (fl 0.7)) 0 1"
    using clampf_range [of 0 1] by simp
  have a: "\<And>k. 0 \<le> k \<Longrightarrow> c_trunc (fmul (fdiv (fsub 1 q) (fl 0.3)) k) = \<lfloor>fmul (fdiv (fsub 1 q) (fl 0.3)) k\<rfloor>"
    using t1 by (intro c_trunc_floor fmul_nonneg)
  have c: "\<And>k. 0 \<le> k \<Longrightarrow> c_trunc (fmul (clampf (fdiv (fsub (fsub 1 q) (fl 0.3)) (fl 0.7)) 0 1) k)
       = \<lfloor>fmul (clampf (fdiv (fsub (fsub 1 q) (fl 0.3)) (fl 0.7)) 0 1) k\<rfloor>"
    using t2 by (intro c_trunc_floor fmul_nonneg)
  show ?thesis
    by (simp add: tierParams_def useTier1_def Let_def a c)
qed

text \<open>The amended claim C1 at quality 0.875.\<close>

theorem tierParams_truncates_witness:
  "(0::real) \<le> 7/8 \<and> (7/8::real) \<le> 1 \<and>
   tierParams (7/8) = \<lparr> lumaLevels = 230, chromaLevels = 176, subsampleFactor = 2,
                          blurSigma = fmul (13981013 / 33554432) (fl 0.7), useDithering = True \<rparr>"
  using tierParams_truncates [of "7/8"]
  by (simp add: Let_def fl_03 fl_07 fl_eps tier_threshold_val fsub_1_78 fdiv_t78 fmul_t78_64 fmul_t78_192)

section \<open>The driver: filter passes and output format\<close>

lemma fadd_nonneg: "0 \<le> a \<Longrightarrow> 0 \<le> c \<Longrightarrow> 0 \<le> fadd a c"
  unfolding fadd_def by (rule fl_nonneg) simp

lemma not_tier1_low: "q \<le> fl 0.6 \<Longrightarrow> \<not> useTier1 q"
  by (simp add: useTier1_def fl_06 fl_07 fl_eps tier_threshold_val)

lemma tier2_blurSigma:
  assumes "\<not> useTier1 q"
  shows "fl 0.7 \<le> blurSigma (tierParams q)"
proof -
  define t where "t = clampf (fdiv (fsub (fsub 1 q) (fl 0.3)) (fl 0.7)) 0 1"
  have t0: "0 \<le> t" unfolding t_def using clampf_range [of 0 1] by simp
  have "0 \<le> fmul t (fl 0.6)" using t0 by (intro fmul_nonneg) (simp_all add: fl_06)
  then have "fl 0.7 \<le> fl 0.7 + fmul t (fl 0.6)" by simp
  then have "fl (fl 0.7) \<le> fl (fl 0.7 + fmul t (fl 0.6))" by (rule fl_mono)
  then have "fl 0.7 \<le> fadd (fl 0.7) (fmul t (fl 0.6))"
    by (simp add: fadd_def fl_07 fl_c07)
  then show ?thesis using assms by (simp add: tierParams_def Let_def t_def)
qed

lemma pngFilter_calls:
  "fst (pngFilter ex tp w h px) =
     (if 0 < blurSigma tp then [ChromaBlur (blurSigma tp)] else []) @
     [ChromaSubsample (subsampleFactor tp)]"
  by (simp add: pngFilter_def)

lemma pngReconstruct_calls:
  "fst (pngReconstruct ex q img) =
     (if 0 < blurSigma (tierParams q) then [ChromaBlur (blurSigma (tierParams q))] else []) @
     [ChromaSubsample (subsampleFactor (tierParams q))]"
  by (simp add: pngReconstruct_def Let_def case_prod_beta pngFilter_calls)


lemma pngPath_calls:
  "filter filter_call (fst (pngPath lib output q img)) = fst (pngReconstruct (std_exp lib) q img)"
proof -
  have all: "filter filter_call (fst (pngReconstruct (std_exp lib) q img)) =
      fst (pngReconstruct (std_exp lib) q img)"
    by (simp add: pngReconstruct_calls)
  show ?thesis
    by (simp add: pngPath_def Let_def case_prod_beta all split: png_plan.splits)
qed

lemma jpegPath_calls:
  "filter filter_call (fst (jpegPath lib output q img)) =
     (if q \<le> fl 0.6 then [ChromaBlur (fl 0.4)] else [])"
  by (simp add: jpegPath_def jpegDenoise_def Let_def case_prod_beta)

lemma compressImage_png:
  assumes "0 \<le> q" "q \<le> 1" "output_ext output = Some ''png''" "stbi_load lib input = Some img"
  shows "fst (compressImage lib input output q) = Load input # fst (pngPath lib output q img)"
  using assms by (simp add: compressImage_def Let_def case_prod_beta)

lemma compressImage_jpeg:
  assumes "0 \<le> q" "q \<le> 1" "output_ext output = Some ''jpg'' \<or> output_ext output = Some ''jpeg''"
    "stbi_load lib input = Some img"
  shows "fst (compressImage lib input output q) = Load input # fst (jpegPath lib output q img)"
  using assms by (auto simp add: compressImage_def Let_def case_prod_beta)

lemma pngReconstruct_data:
  "snd (pngReconstruct ex q img) =
     map (\<lambda>i. toRGBRounded
                 (evenRoundStage (tierParams q)
                    (quantizeStage (tierParams q) (img_w img) (img_h img)
                       (snd (pngFilter ex (tierParams q) (img_w img) (img_h img)
                               (to_ycbcr (img_w img) (img_h img) (img_data img))))) ! nat i)
                 (rgbMultiple q))
         [0 .. img_w img * img_h img - 1]"
  by (simp add: pngReconstruct_def Let_def case_prod_beta)

lemma pngFilter_data:
  "0 < blurSigma tp \<Longrightarrow>
   snd (pngFilter ex tp w h px) =
     chromaSubsample (chromaBlur ex px w h (blurSigma tp)) w h (subsampleFactor tp)"
  by (simp add: pngFilter_def)

lemma png_low_quality_calls:
  assumes "q \<le> fl 0.6"
  shows "fst (pngReconstruct ex q img) =
     [ChromaBlur (blurSigma (tierParams q)), ChromaSubsample (subsampleFactor (tierParams q))]"
proof -
  have "fl 0.7 \<le> blurSigma (tierParams q)"
    using assms by (intro tier2_blurSigma not_tier1_low)
  then have "0 < blurSigma (tierParams q)" by (simp add: fl_07)
  then show ?thesis by (simp add: pngReconstruct_calls)
qed

text \<open>
  Counterexample to claim C2 as stated (with quality at most 0.6 a chroma blur with sigma
  0.4 is applied whatever the output format): on the PNG path at quality 0.5 the driver
  never calls the blur with sigma 0.4.
\<close>

theorem prefilter_counterexample:
  "(1/2::real) \<le> fl 0.6 \<and>
   ChromaBlur (fl 0.4) \<notin> set (fst (compressImage sample_lib ''in.png'' ''out.png'' (1/2)))"
proof -
  have q: "(1/2::real) \<le> fl 0.6" by (simp add: fl_06)
  have ext: "output_ext ''out.png'' = Some ''png''"
    by (simp add: output_ext_def tolower_def)
  have ld: "stbi_load sample_lib ''in.png'' = Some sample_image"
    by (simp add: sample_lib_def)
  have tr: "fst (compressImage sample_lib ''in.png'' ''out.png'' (1/2)) =
      Load ''in.png'' # fst (pngPath sample_lib ''out.png'' (1/2) sample_image)"
    by (rule compressImage_png [OF _ _ ext ld]) simp_all
  have "fl 0.7 \<le> blurSigma (tierParams (1/2))"
    using q by (intro tier2_blurSigma not_tier1_low)
  then have ne: "blurSigma (tierParams (1/2)) \<noteq> fl 0.4" by (simp add: fl_07 fl_04)
  have "ChromaBlur (fl 0.4) \<notin> set (filter filter_call (fst (pngPath sample_lib ''out.png'' (1/2) sample_image)))"
    unfolding pngPath_calls png_low_quality_calls [OF q] using ne by simp
  then have "ChromaBlur (fl 0.4) \<notin> set (fst (pngPath sample_lib ''out.png'' (1/2) sample_image))"
    by simp
  then show ?thesis using q tr by simp
qed

lemma jpegPath_low_quality:
  assumes "q \<le> fl 0.6"
  shows "jpegPath lib output q img =
     (let w = img_w img; h = img_h img;
          blurred = chromaBlur (std_exp lib) (to_ycbcr w h (img_data img)) w h (fl 0.4);
          data = map (\<lambda>i. toRGB (blurred ! nat i)) [0 .. w * h - 1]
      in ([ChromaBlur (fl 0.4), WriteJpg output w h data (jpegQuality q)],
          stbi_write_jpg lib output w h data (jpegQuality q)))"
  using assms by (simp add: jpegPath_def jpegDenoise_def Let_def)

lemma compressImage_jpeg_result:
  assumes "0 \<le> q" "q \<le> 1" "output_ext output = Some ''jpg'' \<or> output_ext output = Some ''jpeg''"
    "stbi_load lib input = Some img"
  shows "compressImage lib input output q =
     (Load input # fst (jpegPath lib output q img), snd (jpegPath lib output q img))"
  using assms by (auto simp add: compressImage_def Let_def case_prod_beta)

lemma pngPath_trace:
  "fst (pngPath lib output q img) =
     fst (pngReconstruct (std_exp lib) q img) @
     (case paletteReduce (snd (pngReconstruct (std_exp lib) q img)) of
        Indexed indices palette \<Rightarrow>
          if write_png8_indexed lib output indices palette (img_w img) (img_h img)
          then [WritePng8 output indices palette (img_w img) (img_h img)]
          else [WritePng8 output indices palette (img_w img) (img_h img),
                WritePng24 output (img_w img) (img_h img) (snd (pngReconstruct (std_exp lib) q img))]
      | Truecolor \<Rightarrow>
          [WritePng24 output (img_w img) (img_h img) (snd (pngReconstruct (std_exp lib) q img))])"
  by (simp add: pngPath_def Let_def case_prod_beta split: png_plan.splits)

text \<open>
  Claim C2, amended: for every invocation with quality at most 0.6 whose input decodes,
  the JPEG path, and only it, applies the chroma blur with sigma 0.4: the driver converts
  the decoded buffer to YCbCr, blurs it with sigma 0.4, converts it back with the
  nearest-rounding inverse and hands that buffer to the JPEG encoder, with no other filter
  pass. The PNG path has no such pass: its filter passes are the tier's own blur, whose
  sigma is at least the binary32 value of 0.7 and so above that of 0.4, followed by the
  subsampling; the tier's blur is applied to the YCbCr conversion of the decoded buffer
  as it is, and the encoders are called after the two passes.
\<close>

theorem prefilter_only_on_jpeg:
  assumes "0 \<le> q" "q \<le> fl 0.6" "stbi_load lib input = Some img"
  shows "(output_ext output = Some ''png'' \<longrightarrow>
            filter filter_call (fst (compressImage lib input output q)) =
              [ChromaBlur (blurSigma (tierParams q)), ChromaSubsample (subsampleFactor (tierParams q))]
            \<and> fl 0.7 \<le> blurSigma (tierParams q)
            \<and> fl 0.4 < blurSigma (tierParams q)
            \<and> snd (pngReconstruct (std_exp lib) q img) =
                (let tp = tierParams q; w = img_w img; h = img_h img;
                     filtered = chromaSubsample
                       (chromaBlur (std_exp lib) (to_ycbcr w h (img_data img)) w h (blurSigma tp))
                       w h (subsampleFactor tp)
                 in map (\<lambda>i. toRGBRounded (evenRoundStage tp (quantizeStage tp w h filtered) ! nat i)
                                (rgbMultiple q))
                      [0 .. w * h - 1])
            \<and> fst (compressImage lib input output q) =
                Load input # ChromaBlur (blurSigma (tierParams q)) #
                ChromaSubsample (subsampleFactor (tierParams q)) #
                (let w = img_w img; h = img_h img; data = snd (pngReconstruct (std_exp lib) q img)
                 in case paletteReduce data of
                      Indexed indices palette \<Rightarrow>
                        if write_png8_indexed lib output indices palette w h
                        then [WritePng8 output indices palette w h]
                        else [WritePng8 output indices palette w h, WritePng24 output w h data]
                    | Truecolor \<Rightarrow> [WritePng24 output w h data]))
       \<and> (output_ext output = Some ''jpg'' \<or> output_ext output = Some ''jpeg'' \<longrightarrow>
            filter filter_call (fst (compressImage lib input output q)) = [ChromaBlur (fl 0.4)]
            \<and> compressImage lib input output q =
                (let w = img_w img; h = img_h img;
                     blurred = chromaBlur (std_exp lib) (to_ycbcr w h (img_data img)) w h (fl 0.4);
                     data = map (\<lambda>i. toRGB (blurred ! nat i)) [0 .. w * h - 1]
                 in ([Load input, ChromaBlur (fl 0.4), WriteJpg output w h data (jpegQuality q)],
                     stbi_write_jpg lib output w h data (jpegQuality q))))"
proof -
  have q1: "q \<le> 1" using assms(2) by (simp add: fl_06)
  have s: "fl 0.7 \<le> blurSigma (tierParams q)"
    using assms(2) by (intro tier2_blurSigma not_tier1_low)
  have s4: "fl 0.4 < blurSigma (tierParams q)" using s by (simp add: fl_07 fl_04)
  have pos: "0 < blurSigma (tierParams q)" using s by (simp add: fl_07)
  have A: "filter filter_call (fst (compressImage lib input output q)) =
        [ChromaBlur (blurSigma (tierParams q)), ChromaSubsample (subsampleFactor (tierParams q))]"
    if e: "output_ext output = Some ''png''"
    by (simp add: compressImage_png [OF assms(1) q1 e assms(3)] pngPath_calls
        png_low_quality_calls [OF assms(2)])
  have B: "snd (pngReconstruct (std_exp lib) q img) =
        (let tp = tierParams q; w = img_w img; h = img_h img;
             filtered = chromaSubsample
               (chromaBlur (std_exp lib) (to_ycbcr w h (img_data img)) w h (blurSigma tp))
               w h (subsampleFactor tp)
         in map (\<lambda>i. toRGBRounded (evenRoundStage tp (quantizeStage tp w h filtered) ! nat i)
                        (rgbMultiple q))
              [0 .. w * h - 1])"
    by (simp add: pngReconstruct_data pngFilter_data [OF pos] Let_def)
  have C: "fst (compressImage lib input output q) =
        Load input # ChromaBlur (blurSigma (tierParams q)) #
        ChromaSubsample (subsampleFactor (tierParams q)) #
        (let w = img_w img; h = img_h img; data = snd (pngReconstruct (std_exp lib) q img)
         in case paletteReduce data of
              Indexed indices palette \<Rightarrow>
                if write_png8_indexed lib output indices palette w h
                then [WritePng8 output indices palette w h]
                else [WritePng8 output indices palette w h, WritePng24 output w h data]
            | Truecolor \<Rightarrow> [WritePng24 output w h data])"
    if e: "output_ext output = Some ''png''"
    unfolding compressImage_png [OF assms(1) q1 e assms(3)] pngPath_trace
      png_low_quality_calls [OF assms(2)]
    by (simp add: Let_def)
  have D: "filter filter_call (fst (compressImage lib input output q)) = [ChromaBlur (fl 0.4)]"
    if e: "output_ext output = Some ''jpg'' \<or> output_ext output = Some ''jpeg''"
    using assms(2)
    by (simp add: compressImage_jpeg [OF assms(1) q1 e assms(3)] jpegPath_calls)
  have E: "compressImage lib input output q =
        (let w = img_w img; h = img_h img;
             blurred = chromaBlur (std_exp lib) (to_ycbcr w h (img_data img)) w h (fl 0.4);
             data = map (\<lambda>i. toRGB (blurred ! nat i)) [0 .. w * h - 1]
         in ([Load input, ChromaBlur (fl 0.4), WriteJpg output w h data (jpegQuality q)],
             stbi_write_jpg lib output w h data (jpegQuality q)))"
    if e: "output_ext output = Some ''jpg'' \<or> output_ext output = Some ''jpeg''"
    unfolding compressImage_jpeg_result [OF assms(1) q1 e assms(3)]
      jpegPath_low_quality [OF assms(2)]
    by (simp add: Let_def)
  show ?thesis using A B C D E s s4 by blast
qed

text \<open>The amended claim C2 at quality 0.5, on a JPEG and on a PNG output path.\<close>

theorem prefilter_only_on_jpeg_witness:
  "(0::real) \<le> 1/2 \<and> (1/2::real) \<le> fl 0.6 \<and>
   stbi_load sample_lib ''in.png'' = Some sample_image \<and>
   filter filter_call (fst (compressImage sample_lib ''in.png'' ''out.jpg'' (1/2))) = [ChromaBlur (fl 0.4)] \<and>
   fst (compressImage sample_lib ''in.png'' ''out.jpg'' (1/2)) =
     [Load ''in.png'', ChromaBlur (fl 0.4),
      WriteJpg ''out.jpg'' 1 1
        (map (\<lambda>i. toRGB (chromaBlur expf (to_ycbcr 1 1 (img_data sample_image)) 1 1 (fl 0.4) ! nat i))
           [0 .. 0])
        (jpegQuality (1/2))] \<and>
   filter filter_call (fst (compressImage sample_lib ''in.png'' ''out.png'' (1/2))) =
     [ChromaBlur (blurSigma (tierParams (1/2))), ChromaSubsample (subsampleFactor (tierParams (1/2)))]"
proof -
  have q: "(1/2::real) \<le> fl 0.6" by (simp add: fl_06)
  have ld: "stbi_load sample_lib ''in.png'' = Some sample_image"
    by (simp add: sample_lib_def)
  have e1: "output_ext ''out.jpg'' = Some ''jpg''" by (simp add: output_ext_def tolower_def)
  have e2: "output_ext ''out.png'' = Some ''png''" by (simp add: output_ext_def tolower_def)
  have wh: "img_w sample_image = 1" "img_h sample_image = 1" "std_exp sample_lib = expf"
    by (simp_all add: sample_image_def sample_lib_def)
  have z: "(0::real) \<le> 1/2" by simp
  note j = prefilter_only_on_jpeg [OF z q ld, of "''out.jpg''"]
  note p = prefilter_only_on_jpeg [OF z q ld, of "''out.png''"]
  have j1: "filter filter_call (fst (compressImage sample_lib ''in.png'' ''out.jpg'' (1/2))) = [ChromaBlur (fl 0.4)]"
    using j e1 by blast
  have j2: "fst (compressImage sample_lib ''in.png'' ''out.jpg'' (1/2)) =
     [Load ''in.png'', ChromaBlur (fl 0.4),
      WriteJpg ''out.jpg'' 1 1
        (map (\<lambda>i. toRGB (chromaBlur expf (to_ycbcr 1 1 (img_data sample_image)) 1 1 (fl 0.4) ! nat i))
           [0 .. 0])
        (jpegQuality (1/2))]"
  proof -
    have "compressImage sample_lib ''in.png'' ''out.jpg'' (1/2) =
        (let w = img_w sample_image; h = img_h sample_image;
             blurred = chromaBlur (std_exp sample_lib) (to_ycbcr w h (img_data sample_image)) w h (fl 0.4);
             data = map (\<lambda>i. toRGB (blurred ! nat i)) [0 .. w * h - 1]
         in ([Load ''in.png'', ChromaBlur (fl 0.4), WriteJpg ''out.jpg'' w h data (jpegQuality (1/2))],
             stbi_write_jpg sample_lib ''out.jpg'' w h data (jpegQuality (1/2))))"
      using j e1 by blast
    then show ?thesis by (simp add: Let_def wh)
  qed
  have p1: "filter filter_call (fst (compressImage sample_lib ''in.png'' ''out.png'' (1/2))) =
     [ChromaBlur (blurSigma (tierParams (1/2))), ChromaSubsample (subsampleFactor (tierParams (1/2)))]"
    using p e2 by blast
  show ?thesis using q ld j1 j2 p1 by simp
qed

text \<open>
  Counterexample to claim C6 as stated (an unsupported extension is rejected before the
  input is decoded): for the output path \<open>out.bmp\<close> the driver calls the decoder and only
  then reports failure.
\<close>

theorem unsupported_extension_counterexample:
  "output_ext ''out.bmp'' = Some ''bmp'' \<and>
   compressImage sample_lib ''in.png'' ''out.bmp'' (1/2) = ([Load ''in.png''], False)"
  by (simp add: compressImage_def output_ext_def tolower_def sample_lib_def)

text \<open>
  Claim C6, amended: for a valid quality and an output path whose extension is none of
  png, jpg and jpeg, the driver reports failure without calling a filter or an encoder; a
  path with no dot is rejected before the decoder is called, a path with another extension
  after the decoder has been called.
\<close>

theorem unsupported_extension_rejected:
  assumes "output_ext output \<noteq> Some ''png''" "output_ext output \<noteq> Some ''jpg''"
    "output_ext output \<noteq> Some ''jpeg''" "0 \<le> q" "q \<le> 1"
  shows "compressImage lib input output q =
           (if output_ext output = None then ([], False) else ([Load input], False))"
  using assms by (auto simp add: compressImage_def Let_def split: option.splits)

text \<open>The amended claim C6 on the output paths \<open>out\<close> and \<open>out.bmp\<close>.\<close>

theorem unsupported_extension_rejected_witness:
  "output_ext ''out'' = None \<and> compressImage sample_lib ''in.png'' ''out'' (1/2) = ([], False) \<and>
   output_ext ''out.bmp'' = Some ''bmp'' \<and>
   compressImage sample_lib ''in.png'' ''out.bmp'' (1/2) = ([Load ''in.png''], False)"
proof -
  have e1: "output_ext ''out'' = None" by (simp add: output_ext_def)
  have e2: "output_ext ''out.bmp'' = Some ''bmp''" by (simp add: output_ext_def tolower_def)
  show ?thesis
    using unsupported_extension_rejected [of "''out''" "1/2" sample_lib "''in.png''"]
      unsupported_extension_rejected [of "''out.bmp''" "1/2" sample_lib "''in.png''"]
    by (simp add: e1 e2)
qed

section \<open>The chroma filters\<close>

lemma set_chroma_luma: "map y (set_chroma px i c) = map y px"
proof (cases "nat i < length px")
  case True
  then show ?thesis by (simp add: set_chroma_def map_update list_update_same_conv)
next
  case False
  then have "px[nat i := (px ! nat i)\<lparr> cb := fst c, cr := snd c \<rparr>] = px"
    by (intro list_update_beyond) simp
  then show ?thesis by (simp add: set_chroma_def)
qed

lemma fold_luma:
  assumes "\<And>x s. map y (f x s) = map y s"
  shows "map y (fold f xs s) = map y s"
  by (induction xs arbitrary: s) (simp_all add: assms)

lemma blur_horizontal_luma: "map y (blur_horizontal kern radius px w h) = map y px"
  unfolding blur_horizontal_def Let_def
  by (intro fold_luma set_chroma_luma)

lemma blur_vertical_luma: "map y (blur_vertical kern radius px w h) = map y px"
  unfolding blur_vertical_def Let_def
  by (intro fold_luma set_chroma_luma)

lemma chromaBlur_luma: "map y (chromaBlur ex px w h sigma) = map y px"
  by (simp add: chromaBlur_def Let_def blur_vertical_luma blur_horizontal_luma)

lemma subsample_block_luma: "map y (subsample_block w h factor y0 x0 px) = map y px"
  unfolding subsample_block_def Let_def
  by (intro fold_luma set_chroma_luma)

lemma chromaSubsample_luma: "map y (chromaSubsample px w h factor) = map y px"
  unfolding chromaSubsample_def
  by (simp add: fold_luma subsample_block_luma)

lemma luma_length: "map y p1 = map y p2 \<Longrightarrow> length p1 = length p2"
  by (rule map_eq_imp_length_eq)

text \<open>
  Claim C8: \<open>chromaSubsample\<close> with a factor of at most 1 returns the raster it was given,
  and so does \<open>chromaBlur\<close> with a sigma below 0.1.
\<close>

theorem chroma_filters_identity:
  "(factor \<le> 1 \<longrightarrow> chromaSubsample px w h factor = px) \<and>
   (sigma < 0.1 \<longrightarrow> chromaBlur ex px w h sigma = px)"
  by (simp add: chromaSubsample_def chromaBlur_def fl_01)

text \<open>Claim C8 on a raster of one pixel, with factor 1 and sigma 0.05.\<close>

theorem chroma_filters_identity_witness:
  "(1::int) \<le> 1 \<and> (0.05::real) < 0.1 \<and>
   chromaSubsample [\<lparr> y = 1, cb = 2, cr = 3 \<rparr>] 1 1 1 = [\<lparr> y = 1, cb = 2, cr = 3 \<rparr>] \<and>
   chromaBlur expf [\<lparr> y = 1, cb = 2, cr = 3 \<rparr>] 1 1 0.05 = [\<lparr> y = 1, cb = 2, cr = 3 \<rparr>]"
  using chroma_filters_identity [of 1 "[\<lparr> y = 1, cb = 2, cr = 3 \<rparr>]" 1 1 "0.05" expf]
  by simp

text \<open>
  Claim C9: on a raster of \<open>w * h\<close> pixels, \<open>chromaBlur\<close> and \<open>chromaSubsample\<close> leave the
  Y component of every pixel unchanged, for every sigma and factor, and return a raster of
  \<open>w * h\<close> pixels.
\<close>

theorem chroma_filters_frame:
  assumes "length px = nat (w * h)"
  shows "map y (chromaBlur ex px w h sigma) = map y px \<and>
         length (chromaBlur ex px w h sigma) = nat (w * h) \<and>
         map y (chromaSubsample px w h factor) = map y px \<and>
         length (chromaSubsample px w h factor) = nat (w * h)"
  using assms luma_length [OF chromaBlur_luma, of ex px w h sigma]
    luma_length [OF chromaSubsample_luma, of px w h factor]
  by (simp add: chromaBlur_luma chromaSubsample_luma)

text \<open>Claim C9 on a raster of two pixels, with sigma 1 and factor 2.\<close>

theorem chroma_filters_frame_witness:
  "length [\<lparr> y = 1, cb = 2, cr = 3 \<rparr>, \<lparr> y = 4, cb = 5, cr = 6 \<rparr>] = nat (2 * 1) \<and>
   map y (chromaBlur expf [\<lparr> y = 1, cb = 2, cr = 3 \<rparr>, \<lparr> y = 4, cb = 5, cr = 6 \<rparr>] 2 1 1) = [1, 4] \<and>
   map y (chromaSubsample [\<lparr> y = 1, cb = 2, cr = 3 \<rparr>, \<lparr> y = 4, cb = 5, cr = 6 \<rparr>] 2 1 2) = [1, 4]"
  using chroma_filters_frame [of "[\<lparr> y = 1, cb = 2, cr = 3 \<rparr>, \<lparr> y = 4, cb = 5, cr = 6 \<rparr>]" 2 1 expf 1 2]
  by simp


section \<open>Granularity of the reconstructed buffer\<close>

lemma roundToMultiple_channel: "channel_ok m (roundToMultiple val m)"
proof -
  define v where "v = c_round (fdiv val (int_to_f32 m)) * m"
  consider "v < 0" | "255 < v" | "0 \<le> v" "v \<le> 255" by linarith
  then show ?thesis
  proof cases
    case 1
    then show ?thesis
      by (simp add: roundToMultiple_def Let_def v_def [symmetric] clamp_int_def to_u8_def channel_ok_def)
  next
    case 2
    then show ?thesis
      by (simp add: roundToMultiple_def Let_def v_def [symmetric] clamp_int_def to_u8_def channel_ok_def)
  next
    case 3
    then have "uint (word_of_int v :: 8 word) = v"
      by (simp add: uint_word_of_int take_bit_int_eq_self)
    moreover have "m dvd v" by (simp add: v_def)
    ultimately show ?thesis using 3
      by (simp add: roundToMultiple_def Let_def v_def [symmetric] clamp_int_def to_u8_def channel_ok_def)
  qed
qed

text \<open>
  Claim C10: on the PNG path every channel of every pixel of the reconstructed buffer is a
  multiple of the granularity \<open>N\<close> (2 when the quality exceeds 0.4, else 4) or equals 255;
  the truecolor encoder receives this buffer and the indexed encoder its palette
  reduction.
\<close>

theorem png_output_granularity:
  "(\<forall>p \<in> set (snd (pngReconstruct ex q img)).
      channel_ok (rgbMultiple q) (r p) \<and> channel_ok (rgbMultiple q) (g p) \<and>
      channel_ok (rgbMultiple q) (b p)) \<and>
   rgbMultiple q = (if fl 0.4 < q then 2 else 4) \<and>
   (\<forall>ev \<in> set (fst (pngPath lib output q img)).
      case ev of
        WritePng24 path w h data \<Rightarrow> data = snd (pngReconstruct (std_exp lib) q img)
      | WritePng8 path indices palette w h \<Rightarrow>
          paletteReduce (snd (pngReconstruct (std_exp lib) q img)) = Indexed indices palette
      | _ \<Rightarrow> True)"
proof (intro conjI)
  show "\<forall>p \<in> set (snd (pngReconstruct ex q img)).
      channel_ok (rgbMultiple q) (r p) \<and> channel_ok (rgbMultiple q) (g p) \<and>
      channel_ok (rgbMultiple q) (b p)"
    unfolding pngReconstruct_data
    by (auto simp add: toRGBRounded_def roundToMultiple_channel)
  show "rgbMultiple q = (if fl 0.4 < q then 2 else 4)"
    by (simp add: rgbMultiple_def)
  show "\<forall>ev \<in> set (fst (pngPath lib output q img)).
      case ev of
        WritePng24 path w h data \<Rightarrow> data = snd (pngReconstruct (std_exp lib) q img)
      | WritePng8 path indices palette w h \<Rightarrow>
          paletteReduce (snd (pngReconstruct (std_exp lib) q img)) = Indexed indices palette
      | _ \<Rightarrow> True"
    by (auto simp add: pngPath_def Let_def case_prod_beta pngReconstruct_calls
        split: png_plan.splits if_splits)
qed

lemma sample_data_nonempty: "snd (pngReconstruct ex q sample_image) \<noteq> []"
  by (simp add: pngReconstruct_data sample_image_def)

text \<open>Claim C10 on the first pixel of the sample image at quality 0.5.\<close>

theorem png_output_granularity_witness:
  "hd (snd (pngReconstruct expf (1/2) sample_image)) \<in> set (snd (pngReconstruct expf (1/2) sample_image)) \<and>
   channel_ok (rgbMultiple (1/2)) (r (hd (snd (pngReconstruct expf (1/2) sample_image)))) \<and>
   channel_ok (rgbMultiple (1/2)) (g (hd (snd (pngReconstruct expf (1/2) sample_image)))) \<and>
   channel_ok (rgbMultiple (1/2)) (b (hd (snd (pngReconstruct expf (1/2) sample_image)))) \<and>
   rgbMultiple (1/2) = 2"
proof -
  have m: "hd (snd (pngReconstruct expf (1/2) sample_image)) \<in> set (snd (pngReconstruct expf (1/2) sample_image))"
    using sample_data_nonempty by simp
  have "rgbMultiple (1/2) = 2" by (simp add: rgbMultiple_def fl_04)
  then show ?thesis
    using png_output_granularity [of expf "1/2" sample_image] m by blast
qed

section \<open>Palette reduction\<close>

lemma pack_entry: "palette_entry (pack p) = [r p, g p, b p, 255]"
proof -
  have m: "(255 :: 32 word) = mask 8" by (simp add: mask_eq_exp_minus_1)
  have 1: "ucast (drop_bit 16 (packRGB r0 g0 b0) AND 255) = r0" for r0 g0 b0
    unfolding packRGB_def m
    by (rule bit_word_eqI) (auto simp add: bit_simps dest: bit_imp_le_length)
  have 2: "ucast (drop_bit 8 (packRGB r0 g0 b0) AND 255) = g0" for r0 g0 b0
    unfolding packRGB_def m
    by (rule bit_word_eqI) (auto simp add: bit_simps dest: bit_imp_le_length)
  have 3: "ucast (packRGB r0 g0 b0 AND 255) = b0" for r0 g0 b0
    unfolding packRGB_def m
    by (rule bit_word_eqI) (auto simp add: bit_simps dest: bit_imp_le_length)
  show ?thesis by (simp add: palette_entry_def pack_def 1 2 3)
qed

lemma pack_inj: "pack p = pack q \<Longrightarrow> p = q"
proof -
  assume "pack p = pack q"
  then have "palette_entry (pack p) = palette_entry (pack q)" by simp
  then show "p = q" by (simp add: pack_entry)
qed


lemma scan_unique_sorted:
  "sorted uniq \<Longrightarrow> distinct uniq \<Longrightarrow>
   sorted (scan_unique uniq ps) \<and> distinct (scan_unique uniq ps)"
proof (induction ps arbitrary: uniq)
  case Nil
  then show ?case by simp
next
  case (Cons p ps)
  have s: "sorted (insort_insert (pack p) uniq)" using Cons.prems by (simp add: sorted_insort_insert)
  have d: "distinct (insort_insert (pack p) uniq)" using Cons.prems by (simp add: distinct_insort_insert)
  show ?case using Cons.IH [OF s d] s d by (simp add: Let_def)
qed

lemma scan_unique_small:
  "length (scan_unique uniq ps) \<le> 256 \<Longrightarrow> set (scan_unique uniq ps) = set uniq \<union> pack ` set ps"
proof (induction ps arbitrary: uniq)
  case Nil
  then show ?case by simp
next
  case (Cons p ps)
  show ?case
  proof (cases "256 < length (insort_insert (pack p) uniq)")
    case True
    then show ?thesis using Cons.prems by (simp add: Let_def)
  next
    case False
    then have "set (scan_unique (insort_insert (pack p) uniq) ps) =
        set (insort_insert (pack p) uniq) \<union> pack ` set ps"
      using Cons.prems by (intro Cons.IH) (simp add: Let_def)
    then show ?thesis using False by (simp add: Let_def set_insort_insert)
  qed
qed

lemma scan_unique_large:
  "distinct uniq \<Longrightarrow> 256 < length (scan_unique uniq ps) \<Longrightarrow>
   256 < card (set uniq \<union> pack ` set ps)"
proof (induction ps arbitrary: uniq)
  case Nil
  then show ?case by (simp add: distinct_card)
next
  case (Cons p ps)
  have d: "distinct (insort_insert (pack p) uniq)" using Cons.prems by (simp add: distinct_insort_insert)
  have eq: "set (insort_insert (pack p) uniq) \<union> pack ` set ps = set uniq \<union> pack ` set (p # ps)"
    by (simp add: set_insort_insert)
  show ?case
  proof (cases "256 < length (insort_insert (pack p) uniq)")
    case True
    then have "256 < card (set (insort_insert (pack p) uniq))" using d by (simp add: distinct_card)
    moreover have "card (set (insort_insert (pack p) uniq)) \<le> card (set uniq \<union> pack ` set (p # ps))"
      by (intro card_mono) (auto simp add: set_insort_insert)
    ultimately show ?thesis by linarith
  next
    case False
    then have "256 < length (scan_unique (insort_insert (pack p) uniq) ps)"
      using Cons.prems by (simp add: Let_def)
    then have "256 < card (set (insort_insert (pack p) uniq) \<union> pack ` set ps)"
      using d by (intro Cons.IH)
    then show ?thesis unfolding eq .
  qed
qed

lemma scan_unique_all:
  assumes "length (scan_unique [] data) \<le> 256"
  shows "scan_unique [] data = sorted_list_of_set (pack ` set data)"
proof -
  have sd: "sorted (scan_unique [] data) \<and> distinct (scan_unique [] data)"
    by (rule scan_unique_sorted) simp_all
  have st: "set (scan_unique [] data) = pack ` set data"
    using scan_unique_small [OF assms] by simp
  show ?thesis
    using sd st by (metis sorted_list_of_set.idem_if_sorted_distinct)
qed

lemma scan_unique_decides:
  "(scan_unique [] data \<noteq> [] \<and> length (scan_unique [] data) \<le> 256) \<longleftrightarrow>
   (1 \<le> card (pack ` set data) \<and> card (pack ` set data) \<le> 256)"
proof (cases "length (scan_unique [] data) \<le> 256")
  case True
  have eq: "scan_unique [] data = sorted_list_of_set (pack ` set data)"
    using True by (rule scan_unique_all)
  have len: "length (scan_unique [] data) = card (pack ` set data)"
    unfolding eq by simp
  have "scan_unique [] data \<noteq> [] \<longleftrightarrow> 1 \<le> card (pack ` set data)"
    using len by (cases "scan_unique [] data") auto
  then show ?thesis using True len by simp
next
  case False
  then have "256 < card (set [] \<union> pack ` set data)"
    by (intro scan_unique_large) simp_all
  then show ?thesis using False by simp
qed

lemma build_palette_fst:
  "fst (build_palette cs idx (pal, m)) = pal @ concat (map palette_entry cs)"
  by (induction cs arbitrary: idx pal m) simp_all

lemma build_palette_other:
  "c \<notin> set cs \<Longrightarrow> snd (build_palette cs idx (pal, m)) c = m c"
  by (induction cs arbitrary: idx pal m) auto

lemma build_palette_snd:
  "distinct cs \<Longrightarrow> k < length cs \<Longrightarrow>
   snd (build_palette cs idx (pal, m)) (cs ! k) = Some (idx + of_nat k)"
proof (induction cs arbitrary: idx pal m k)
  case Nil
  then show ?case by simp
next
  case (Cons c cs)
  show ?case
  proof (cases k)
    case 0
    have "c \<notin> set cs" using Cons.prems by simp
    then show ?thesis using 0 by (simp add: build_palette_other)
  next
    case (Suc j)
    then have "snd (build_palette cs (idx + 1) (pal @ palette_entry c, m(c \<mapsto> idx))) (cs ! j)
        = Some (idx + 1 + of_nat j)"
      using Cons.prems by (intro Cons.IH) simp_all
    then show ?thesis using Suc by (simp add: add.assoc)
  qed
qed

lemma palette_entry_length: "length (palette_entry c) = 4"
  by (simp add: palette_entry_def)

lemma concat_entries_length: "length (concat (map palette_entry cs)) = 4 * length cs"
  by (induction cs) (simp_all add: palette_entry_length)

lemma concat_entries_chunk:
  "k < length cs \<Longrightarrow> take 4 (drop (4 * k) (concat (map palette_entry cs))) = palette_entry (cs ! k)"
proof (induction cs arbitrary: k)
  case Nil
  then show ?case by simp
next
  case (Cons c cs)
  show ?case
  proof (cases k)
    case 0
    then show ?thesis by (simp add: palette_entry_length)
  next
    case (Suc j)
    then have "take 4 (drop (4 * j) (concat (map palette_entry cs))) = palette_entry (cs ! j)"
      using Cons.prems by (intro Cons.IH) simp
    then show ?thesis using Suc by (simp add: palette_entry_length)
  qed
qed


lemma paletteReduce_indexed:
  assumes "scan_unique [] data \<noteq> []" "length (scan_unique [] data) \<le> 256"
  shows "paletteReduce data =
     Indexed (map (\<lambda>p. lookup_idx (snd (build_palette (scan_unique [] data) 0 ([], Map.empty))) (pack p)) data)
             (concat (map palette_entry (scan_unique [] data)))"
  using assms build_palette_fst [of "scan_unique [] data" 0 "[]" Map.empty]
  by (simp add: paletteReduce_def Let_def case_prod_beta)

lemma paletteReduce_truecolor:
  assumes "\<not> (scan_unique [] data \<noteq> [] \<and> length (scan_unique [] data) \<le> 256)"
  shows "paletteReduce data = Truecolor"
  using assms by (auto simp add: paletteReduce_def Let_def)

lemma pixel_index:
  assumes "length (scan_unique [] data) \<le> 256" "i < length data"
  shows "\<exists>k < card (pack ` set data).
           lookup_idx (snd (build_palette (scan_unique [] data) 0 ([], Map.empty))) (pack (data ! i)) = of_nat k
           \<and> unat (of_nat k :: 8 word) = k
           \<and> scan_unique [] data ! k = pack (data ! i)"
proof -
  define U where "U = scan_unique [] data"
  have eq: "U = sorted_list_of_set (pack ` set data)"
    unfolding U_def using assms(1) by (rule scan_unique_all)
  have len: "length U = card (pack ` set data)" unfolding eq by simp
  have d: "distinct U" unfolding eq by simp
  have "pack (data ! i) \<in> set U" unfolding eq using assms(2) by simp
  then obtain k where k: "k < length U" "U ! k = pack (data ! i)"
    by (auto simp add: in_set_conv_nth)
  have "snd (build_palette U 0 ([], Map.empty)) (U ! k) = Some (0 + of_nat k)"
    using d k(1) by (rule build_palette_snd)
  then have l: "lookup_idx (snd (build_palette U 0 ([], Map.empty))) (pack (data ! i)) = of_nat k"
    by (simp add: lookup_idx_def k(2))
  have "k < 256" using k(1) assms(1) by (simp add: U_def)
  then have u: "unat (of_nat k :: 8 word) = k" by (simp add: unat_of_nat)
  show ?thesis using k l u len unfolding U_def by auto
qed

text \<open>
  Claim C5: for every finished RGB buffer the indexed branch is selected exactly when the
  number of distinct packed colours is between 1 and 256. In that case the palette is one
  RGBA entry per distinct colour (in ascending order of the packed value), each with alpha
  255, and the palette entry at \<open>indices[i]\<close> is the colour of pixel \<open>i\<close>. When the buffer is
  empty or has more than 256 distinct colours the truecolor branch is selected and no
  palette is built.
\<close>

theorem palette_reduction:
  "((\<exists>indices palette. paletteReduce data = Indexed indices palette) \<longleftrightarrow>
      (1 \<le> card (pack ` set data) \<and> card (pack ` set data) \<le> 256)) \<and>
   (\<forall>indices palette. paletteReduce data = Indexed indices palette \<longrightarrow>
      palette = concat (map palette_entry (sorted_list_of_set (pack ` set data))) \<and>
      length palette = 4 * card (pack ` set data) \<and>
      length indices = length data \<and>
      (\<forall>i < length data.
         unat (indices ! i) < card (pack ` set data) \<and>
         take 4 (drop (4 * unat (indices ! i)) palette) = [r (data ! i), g (data ! i), b (data ! i), 255])) \<and>
   (data = [] \<or> 256 < card (pack ` set data) \<longrightarrow> paletteReduce data = Truecolor)"
proof -
  have A: "(\<exists>indices palette. paletteReduce data = Indexed indices palette) \<longleftrightarrow>
      (1 \<le> card (pack ` set data) \<and> card (pack ` set data) \<le> 256)"
  proof (cases "scan_unique [] data \<noteq> [] \<and> length (scan_unique [] data) \<le> 256")
    case True
    then show ?thesis
      using paletteReduce_indexed [of data] scan_unique_decides [of data] by simp
  next
    case False
    then show ?thesis
      using paletteReduce_truecolor [of data] scan_unique_decides [of data] by simp
  qed
  have B: "palette = concat (map palette_entry (sorted_list_of_set (pack ` set data))) \<and>
      length palette = 4 * card (pack ` set data) \<and>
      length indices = length data \<and>
      (\<forall>i < length data.
         unat (indices ! i) < card (pack ` set data) \<and>
         take 4 (drop (4 * unat (indices ! i)) palette) = [r (data ! i), g (data ! i), b (data ! i), 255])"
    if a: "paletteReduce data = Indexed indices palette" for indices palette
  proof -
    have c: "scan_unique [] data \<noteq> [] \<and> length (scan_unique [] data) \<le> 256"
    proof (rule ccontr)
      assume "\<not> ?thesis"
      then have "paletteReduce data = Truecolor" by (rule paletteReduce_truecolor)
      then show False using a by simp
    qed
    then have small: "length (scan_unique [] data) \<le> 256" by simp
    have U: "scan_unique [] data = sorted_list_of_set (pack ` set data)"
      using small by (rule scan_unique_all)
    have ind: "indices = map (\<lambda>p. lookup_idx (snd (build_palette (scan_unique [] data) 0 ([], Map.empty))) (pack p)) data"
      and pal: "palette = concat (map palette_entry (scan_unique [] data))"
      using a paletteReduce_indexed [of data] c by simp_all
    have 1: "palette = concat (map palette_entry (sorted_list_of_set (pack ` set data)))"
      using pal U by simp
    have 2: "length palette = 4 * card (pack ` set data)"
      unfolding pal concat_entries_length U by simp
    have 3: "length indices = length data" unfolding ind by simp
    have 4: "unat (indices ! i) < card (pack ` set data) \<and>
         take 4 (drop (4 * unat (indices ! i)) palette) = [r (data ! i), g (data ! i), b (data ! i), 255]"
      if i: "i < length data" for i
    proof -
      obtain k where k: "k < card (pack ` set data)"
        "lookup_idx (snd (build_palette (scan_unique [] data) 0 ([], Map.empty))) (pack (data ! i)) = of_nat k"
        "unat (of_nat k :: 8 word) = k" "scan_unique [] data ! k = pack (data ! i)"
        using pixel_index [OF small i] by blast
      have ik: "indices ! i = of_nat k" unfolding ind using i k(2) by simp
      have kl: "k < length (scan_unique [] data)" using k(1) unfolding U by simp
      have "take 4 (drop (4 * k) palette) = palette_entry (pack (data ! i))"
        unfolding pal using concat_entries_chunk [OF kl] k(4) by simp
      then show ?thesis using k(1) k(3) ik by (simp add: pack_entry)
    qed
    show ?thesis using 1 2 3 4 by blast
  qed
  have C: "paletteReduce data = Truecolor" if a: "data = [] \<or> 256 < card (pack ` set data)"
  proof -
    have "\<not> (1 \<le> card (pack ` set data) \<and> card (pack ` set data) \<le> 256)" using a by auto
    then have "\<not> (scan_unique [] data \<noteq> [] \<and> length (scan_unique [] data) \<le> 256)"
      using scan_unique_decides [of data] by simp
    then show ?thesis by (rule paletteReduce_truecolor)
  qed
  show ?thesis using A B C by blast
qed

lemma two_colours_reduce:
  "paletteReduce two_colours = Indexed [0, 1, 0] [0, 0, 0, 255, 255, 255, 255, 255]"
  by (simp add: paletteReduce_def two_colours_def Let_def pack_def packRGB_def
      insort_insert_key_def palette_entry_def lookup_idx_def)

lemma two_colours_card: "card (pack ` set two_colours) = 2"
proof -
  have "pack ` set two_colours = {0, 16777215}"
    by (auto simp add: two_colours_def pack_def packRGB_def)
  then show ?thesis by simp
qed

text \<open>Claim C5 on a buffer of three pixels with two colours, and on the empty buffer.\<close>

theorem palette_reduction_witness:
  "paletteReduce two_colours = Indexed [0, 1, 0] [0, 0, 0, 255, 255, 255, 255, 255] \<and>
   1 \<le> card (pack ` set two_colours) \<and> card (pack ` set two_colours) \<le> 256 \<and>
   length [0, 0, 0, 255, 255, 255, 255, 255 :: 8 word] = 4 * card (pack ` set two_colours) \<and>
   paletteReduce [] = Truecolor"
proof -
  have 1: "1 \<le> card (pack ` set two_colours) \<and> card (pack ` set two_colours) \<le> 256"
    using palette_reduction [of two_colours] two_colours_reduce by blast
  have 2: "length [0, 0, 0, 255, 255, 255, 255, 255 :: 8 word] = 4 * card (pack ` set two_colours)"
    by (simp add: two_colours_card)
  have 3: "paletteReduce [] = Truecolor"
    using palette_reduction [of "[]"] by blast
  show ?thesis using 1 2 3 two_colours_reduce by blast
qed

section \<open>The quantiser\<close>

lemma fl_1: "fl 1 = 1"
  by (rule fl_eq [where e = 0 and m = 8388608]) (simp_all add: rne_def power_int_minus)

lemma fl_21: "fl (21) = 21"
  by (rule fl_eq [where e = 4 and m = 11010048]) (simp_all add: rne_def power_int_minus)

lemma fl_pow31: "fl (2147483648) = 2147483648"
  by (rule fl_eq [where e = 31 and m = 8388608]) (simp_all add: rne_def power_int_minus)

lemma fl_255_pow31: "fl (255 / 2147483648) = 255 / 2147483648"
  by (rule fl_eq [where e = "- 24" and m = 16711680]) (simp_all add: rne_def power_int_minus)

lemma fdiv_255_21: "fdiv 255 21 = 12732709 / 1048576"
  unfolding fdiv_def by (rule fl_eq [where e = 3 and m = 12732709]) (simp_all add: rne_def power_int_minus)

lemma fdiv_255_step22: "fdiv 255 (12732709 / 1048576) = 21"
  unfolding fdiv_def by (rule fl_eq [where e = 4 and m = 11010048]) (simp_all add: rne_def power_int_minus)

lemma fmul_21_step22: "fmul 21 (12732709 / 1048576) = 16711681 / 65536"
  unfolding fmul_def by (rule fl_eq [where e = 7 and m = 16711681]) (simp_all add: rne_def power_int_minus)


lemma quant_step_pos:
  assumes "levels \<le> 2147483647"
  shows "0 < quant_step levels"
proof -
  define n where "n = max levels 2 - 1"
  have n1: "1 \<le> n" and n2: "n \<le> 2147483648" using assms by (simp_all add: n_def)
  have "fl 1 \<le> fl (of_int n)" using n1 by (intro fl_mono) simp
  then have f1: "1 \<le> fl (of_int n)" by (simp add: fl_1)
  have "fl (of_int n) \<le> fl 2147483648" using n2 by (intro fl_mono) simp
  then have f2: "fl (of_int n) \<le> 2147483648" by (simp add: fl_pow31)
  have "255 / 2147483648 \<le> 255 / fl (of_int n)"
    using f1 f2 by (intro divide_left_mono) simp_all
  then have "fl (255 / 2147483648) \<le> fl (255 / fl (of_int n))" by (rule fl_mono)
  then have "255 / 2147483648 \<le> fl (255 / fl (of_int n))" by (simp add: fl_255_pow31)
  then show ?thesis by (simp add: quant_step_def fdiv_def int_to_f32_def n_def)
qed

lemma quantize_mono:
  assumes "levels \<le> 2147483647" "v \<le> v'"
  shows "quantize v levels \<le> quantize v' levels"
proof -
  define s where "s = quant_step levels"
  have s: "0 < s" unfolding s_def using assms(1) by (rule quant_step_pos)
  have "v / s \<le> v' / s" using assms(2) s by (simp add: divide_right_mono)
  then have "fl (v / s) \<le> fl (v' / s)" by (rule fl_mono)
  then have "c_round (fl (v / s)) \<le> c_round (fl (v' / s))" by (rule c_round_mono)
  then have "(of_int (c_round (fl (v / s))) :: real) \<le> of_int (c_round (fl (v' / s)))" by simp
  then have "of_int (c_round (fl (v / s))) * s \<le> of_int (c_round (fl (v' / s))) * s"
    using s by (simp add: mult_right_mono)
  then have "fl (of_int (c_round (fl (v / s))) * s) \<le> fl (of_int (c_round (fl (v' / s))) * s)"
    by (rule fl_mono)
  then show ?thesis by (simp add: quantize_def Let_def fmul_def fdiv_def s_def)
qed

lemma quantize_index_nonneg:
  assumes "levels \<le> 2147483647" "0 \<le> v"
  shows "0 \<le> c_round (fdiv v (quant_step levels))"
proof -
  have "0 < quant_step levels" using assms(1) by (rule quant_step_pos)
  then have "0 \<le> fdiv v (quant_step levels)" using assms(2) by (intro fdiv_nonneg) simp_all
  then show ?thesis by (rule c_round_nonneg)
qed

text \<open>
  Counterexample to claim C3 as stated (the result lies on the grid \<open>{0, step, ..., 255}\<close>):
  with 22 levels the binary32 step is slightly above \<open>255 / 21\<close>, and \<open>quantize 255 22\<close> is
  the binary32 product \<open>21 * step\<close>, which is 255.0000153 and exceeds 255.
\<close>

theorem quantize_grid_counterexample:
  "quant_step 22 = 12732709 / 1048576 \<and> quantize 255 22 = 16711681 / 65536 \<and> 255 < quantize 255 22"
  by (simp add: quantize_def quant_step_def Let_def int_to_f32_def fl_21 fdiv_255_21
      fdiv_255_step22 fmul_21_step22 c_round_def)


lemma f32_exponent_ge:
  assumes "2 powi k \<le> \<bar>x\<bar>" "k \<le> 127"
  shows "k \<le> f32_exponent x"
proof (rule ccontr)
  assume "\<not> k \<le> f32_exponent x"
  then have lt: "f32_exponent x < k" by simp
  then have "f32_exponent x < 127" using assms(2) by simp
  then have "\<bar>x\<bar> < 2 powi (f32_exponent x + 1)" by (rule f32_exponent_upper')
  moreover have "(2::real) powi (f32_exponent x + 1) \<le> 2 powi k"
    using lt by (intro powi2_mono) simp
  ultimately show False using assms(1) by linarith
qed

lemma f32_exponent_le:
  assumes "\<bar>x\<bar> < 2 powi (k + 1)" "- 126 \<le> k"
  shows "f32_exponent x \<le> k"
proof (rule ccontr)
  assume "\<not> f32_exponent x \<le> k"
  then have lt: "k + 1 \<le> f32_exponent x" by simp
  then have "f32_exponent x \<noteq> - 126" using assms(2) by simp
  then have "2 powi (f32_exponent x) \<le> \<bar>x\<bar>" by (rule f32_exponent_lower)
  moreover have "(2::real) powi (k + 1) \<le> 2 powi (f32_exponent x)"
    using lt by (intro powi2_mono)
  ultimately show False using assms(1) by linarith
qed

lemma fl_rel:
  assumes "2 powi (- 125) \<le> \<bar>x\<bar>"
  shows "\<bar>fl x - x\<bar> \<le> \<bar>x\<bar> / 16777216"
proof -
  have "- 125 \<le> f32_exponent x" using assms by (intro f32_exponent_ge) simp_all
  then have "f32_exponent x \<noteq> - 126" by simp
  then have lo: "2 powi (f32_exponent x) \<le> \<bar>x\<bar>" by (rule f32_exponent_lower)
  have "(2::real) powi (f32_exponent x - 24) = 2 powi (f32_exponent x) / 16777216"
    by (simp add: power_int_diff)
  then have "(2::real) powi (f32_exponent x - 24) \<le> \<bar>x\<bar> / 16777216"
    using lo by (simp add: divide_right_mono)
  then show ?thesis using fl_err_exp [of x] by linarith
qed

lemma fl_of_int_small:
  assumes "1 \<le> n" "n < 16777216"
  shows "fl (of_int n) = of_int n"
proof -
  define e where "e = f32_exponent (of_int n)"
  have e0: "0 \<le> e" unfolding e_def using assms(1) by (intro f32_exponent_ge) simp_all
  have "\<bar>of_int n :: real\<bar> < 2 powi (23 + 1)" using assms by simp
  then have e23: "e \<le> 23" unfolding e_def by (intro f32_exponent_le) simp_all
  define m where "m = nat (23 - e)"
  have "e - 23 = - int m" using e23 by (simp add: m_def)
  then have "(2::real) powi (e - 23) = 2 powi (- int m)" by simp
  then have u: "(2::real) powi (e - 23) = inverse (2 ^ m)"
    by (simp add: power_int_minus)
  have "of_int n / inverse ((2::real) ^ m) = of_int (n * 2 ^ m)"
    by (simp add: divide_inverse)
  then have "rne (of_int n / inverse ((2::real) ^ m)) = n * 2 ^ m"
    by (simp only: rne_of_int)
  then have "fl (of_int n) = of_int (n * 2 ^ m) * inverse (2 ^ m)"
    by (simp add: fl_def Let_def e_def [symmetric] u)
  then show ?thesis by simp
qed

lemma quantize_index_le:
  assumes "levels \<le> 65536" "0 \<le> v" "v \<le> 255"
  shows "c_round (fdiv v (quant_step levels)) \<le> max levels 2 - 1"
proof -
  define n where "n = max levels 2 - 1"
  define N :: real where "N = of_int n"
  have n1: "1 \<le> n" and n2: "n \<le> 65535" using assms(1) by (simp_all add: n_def)
  have N1: "1 \<le> N" and N2: "N \<le> 65535" using n1 n2 by (simp_all add: N_def)
  have conv: "int_to_f32 n = N"
    unfolding int_to_f32_def N_def using n1 n2 by (intro fl_of_int_small) simp_all
  define q where "q = 255 / N"
  have qpos: "0 < q" using N1 by (simp add: q_def)
  have qlo: "255 / 65535 \<le> q" unfolding q_def using N1 N2 by (intro divide_left_mono) simp_all
  have "(2::real) powi (- 125) \<le> 255 / 65535" by (simp add: power_int_minus)
  then have "2 powi (- 125) \<le> \<bar>q\<bar>" using qlo by linarith
  then have "\<bar>fl q - q\<bar> \<le> \<bar>q\<bar> / 16777216" by (rule fl_rel)
  then have slo: "q * (16777215 / 16777216) \<le> fl q" using qpos by linarith
  define s where "s = fl q"
  have spos: "0 < s" using slo qpos unfolding s_def
    by (smt (verit) mult_pos_pos zero_less_divide_iff)
  have step: "quant_step levels = s"
    by (simp add: quant_step_def fdiv_def n_def [symmetric] conv s_def q_def)
  have "v / s \<le> 255 / s" using assms(3) spos by (simp add: divide_right_mono)
  also have "255 / s \<le> 255 / (q * (16777215 / 16777216))"
    using slo qpos spos unfolding s_def by (intro divide_left_mono) simp_all
  also have "255 / (q * (16777215 / 16777216)) = N * (16777216 / 16777215)"
    using N1 by (simp add: q_def)
  finally have x: "v / s \<le> N * (16777216 / 16777215)" .
  define z where "z = N * (16777216 / 16777215)"
  have z1: "1 \<le> z" using N1 by (simp add: z_def)
  have "(2::real) powi (- 125) \<le> 1" by (simp add: power_int_minus)
  then have "2 powi (- 125) \<le> \<bar>z\<bar>" using z1 by linarith
  then have "\<bar>fl z - z\<bar> \<le> \<bar>z\<bar> / 16777216" by (rule fl_rel)
  then have "fl z \<le> z + z / 16777216" using z1 by linarith
  moreover have "fl (v / s) \<le> fl z" using x unfolding z_def by (rule fl_mono)
  ultimately have d: "fl (v / s) \<le> z + z / 16777216" by linarith
  have "z + z / 16777216 < N + 1/2" using N1 N2 by (simp add: z_def)
  then have lt: "fl (v / s) < N + 1/2" using d by linarith
  have nonneg: "0 \<le> fl (v / s)" using assms(2) spos by (intro fl_nonneg) simp
  have "\<lfloor>fl (v / s) + 1/2\<rfloor> \<le> n"
    using lt by (simp add: floor_le_iff N_def)
  then have "c_round (fl (v / s)) \<le> n" using nonneg by (simp add: c_round_def)
  then show ?thesis by (simp add: step fdiv_def n_def)
qed

text \<open>
  Claim C3, amended: for every \<open>v\<close> in \<open>[0, 255]\<close> and every \<^verbatim>\<open>int\<close> \<open>levels\<close>, \<open>quantize\<close>
  clamps \<open>levels\<close> to at least 2, uses the binary32 quotient \<open>step = 255 / (levels - 1)\<close>,
  which is positive, and returns the binary32 product \<open>k * step\<close> for the non-negative
  integer \<open>k = round (v / step)\<close>; \<open>k\<close> is at most \<open>levels - 1\<close> when \<open>levels\<close> is at most 65536;
  and \<open>quantize\<close> is monotonic non-decreasing in \<open>v\<close>. The products are rounded, so the
  largest grid point is 255 only up to rounding.
\<close>

theorem quantize_grid:
  assumes "0 \<le> v" "v \<le> 255" "levels \<le> 2147483647"
  shows "quantize v levels =
           fmul (of_int (c_round (fdiv v (quant_step levels)))) (quant_step levels) \<and>
         quant_step levels = fdiv 255 (int_to_f32 (max levels 2 - 1)) \<and>
         0 < quant_step levels \<and>
         0 \<le> c_round (fdiv v (quant_step levels)) \<and>
         (levels \<le> 65536 \<longrightarrow> c_round (fdiv v (quant_step levels)) \<le> max levels 2 - 1) \<and>
         (\<forall>v'. v \<le> v' \<longrightarrow> quantize v levels \<le> quantize v' levels)"
  using assms quant_step_pos [of levels] quantize_index_nonneg [of levels v]
    quantize_index_le [of levels v] quantize_mono [of levels v]
  by (simp add: quantize_def Let_def quant_step_def)

text \<open>The amended claim C3 at \<open>v = 255\<close> with 22 levels.\<close>

theorem quantize_grid_witness:
  "(0::real) \<le> 255 \<and> (255::real) \<le> 255 \<and> (22::int) \<le> 2147483647 \<and>
   quantize 255 22 = fmul (of_int (c_round (fdiv 255 (quant_step 22)))) (quant_step 22) \<and>
   c_round (fdiv 255 (quant_step 22)) = 21 \<and>
   c_round (fdiv 255 (quant_step 22)) \<le> max 22 2 - 1"
  using quantize_grid [of 255 22]
  by (simp add: quant_step_def int_to_f32_def fl_21 fdiv_255_21 fdiv_255_step22 c_round_def)

section \<open>The colour round trip\<close>

lemma fl_c299: "fl (299 / 1000) = 10032775 / 33554432"
  by (rule fl_eq [where e = "- 2" and m = 10032775]) (simp_all add: rne_def power_int_minus)

lemma fl_c587: "fl (587 / 1000) = 4924113 / 8388608"
  by (rule fl_eq [where e = "- 1" and m = 9848226]) (simp_all add: rne_def power_int_minus)

lemma fl_c114: "fl (57 / 500) = 15300821 / 134217728"
  by (rule fl_eq [where e = "- 4" and m = 15300821]) (simp_all add: rne_def power_int_minus)

lemma fl_c168: "fl (5273 / 31250) = 11323681 / 67108864"
  by (rule fl_eq [where e = "- 3" and m = 11323681]) (simp_all add: rne_def power_int_minus)

lemma fl_c331: "fl (5176 / 15625) = 11115375 / 33554432"
  by (rule fl_eq [where e = "- 2" and m = 11115375]) (simp_all add: rne_def power_int_minus)

lemma fl_c418: "fl (6542 / 15625) = 7024419 / 16777216"
  by (rule fl_eq [where e = "- 2" and m = 14048838]) (simp_all add: rne_def power_int_minus)

lemma fl_c081: "fl (2541 / 31250) = 1364189 / 16777216"
  by (rule fl_eq [where e = "- 4" and m = 10913512]) (simp_all add: rne_def power_int_minus)

lemma fl_c1402: "fl (701 / 500) = 2940207 / 2097152"
  by (rule fl_eq [where e = 0 and m = 11760828]) (simp_all add: rne_def power_int_minus)

lemma fl_c344: "fl (43017 / 125000) = 1443411 / 4194304"
  by (rule fl_eq [where e = "- 2" and m = 11547288]) (simp_all add: rne_def power_int_minus)

lemma fl_c714: "fl (89267 / 125000) = 5990607 / 8388608"
  by (rule fl_eq [where e = "- 1" and m = 11981214]) (simp_all add: rne_def power_int_minus)

lemma fl_c1772: "fl (443 / 250) = 14864613 / 8388608"
  by (rule fl_eq [where e = 0 and m = 14864613]) (simp_all add: rne_def power_int_minus)

lemma fl_err_512:
  assumes "\<bar>x\<bar> < 512"
  shows "x - 1 / 65536 \<le> fl x \<and> fl x \<le> x + 1 / 65536"
proof -
  have "\<bar>x\<bar> < 2 powi 9" using assms by simp
  then have "\<bar>fl x - x\<bar> \<le> 2 powi (9 - 25)" by (rule fl_err_lt) simp
  then have "\<bar>fl x - x\<bar> \<le> 1 / 65536" by (simp add: power_int_minus)
  then show ?thesis by linarith
qed

lemma fmul_err: "\<bar>a * c\<bar> < 512 \<Longrightarrow> a * c - 1 / 65536 \<le> fmul a c \<and> fmul a c \<le> a * c + 1 / 65536"
  unfolding fmul_def by (rule fl_err_512)

lemma fadd_err: "\<bar>a + c\<bar> < 512 \<Longrightarrow> a + c - 1 / 65536 \<le> fadd a c \<and> fadd a c \<le> a + c + 1 / 65536"
  unfolding fadd_def by (rule fl_err_512)

lemma fsub_err: "\<bar>a - c\<bar> < 512 \<Longrightarrow> a - c - 1 / 65536 \<le> fsub a c \<and> fsub a c \<le> a - c + 1 / 65536"
  unfolding fsub_def by (rule fl_err_512)

lemma luma_err:
  fixes R G B :: real
  assumes "0 \<le> R" "R \<le> 255" "0 \<le> G" "G \<le> 255" "0 \<le> B" "B \<le> 255"
  shows "(10032775 / 33554432) * R + (4924113 / 8388608) * G + (15300821 / 134217728) * B - 5 / 65536
           \<le> fadd (fadd (fmul (10032775 / 33554432) R) (fmul (4924113 / 8388608) G)) (fmul (15300821 / 134217728) B) \<and>
         fadd (fadd (fmul (10032775 / 33554432) R) (fmul (4924113 / 8388608) G)) (fmul (15300821 / 134217728) B)
           \<le> (10032775 / 33554432) * R + (4924113 / 8388608) * G + (15300821 / 134217728) * B + 5 / 65536"
proof -
  define a1 where "a1 = fmul (10032775 / 33554432) R"
  define a2 where "a2 = fmul (4924113 / 8388608) G"
  define a3 where "a3 = fmul (15300821 / 134217728) B"
  define s1 where "s1 = fadd a1 a2"
  define s2 where "s2 = fadd s1 a3"
  have e1: "(10032775 / 33554432) * R - 1 / 65536 \<le> a1 \<and> a1 \<le> (10032775 / 33554432) * R + 1 / 65536"
    unfolding a1_def using assms by (intro fmul_err) linarith
  have e2: "(4924113 / 8388608) * G - 1 / 65536 \<le> a2 \<and> a2 \<le> (4924113 / 8388608) * G + 1 / 65536"
    unfolding a2_def using assms by (intro fmul_err) linarith
  have e3: "(15300821 / 134217728) * B - 1 / 65536 \<le> a3 \<and> a3 \<le> (15300821 / 134217728) * B + 1 / 65536"
    unfolding a3_def using assms by (intro fmul_err) linarith
  have e4: "a1 + a2 - 1 / 65536 \<le> s1 \<and> s1 \<le> a1 + a2 + 1 / 65536"
    unfolding s1_def using assms e1 e2 by (intro fadd_err) linarith
  have e5: "s1 + a3 - 1 / 65536 \<le> s2 \<and> s2 \<le> s1 + a3 + 1 / 65536"
    unfolding s2_def using assms e1 e2 e3 e4 by (intro fadd_err) linarith
  have "(10032775 / 33554432) * R + (4924113 / 8388608) * G + (15300821 / 134217728) * B - 5 / 65536 \<le> s2 \<and>
        s2 \<le> (10032775 / 33554432) * R + (4924113 / 8388608) * G + (15300821 / 134217728) * B + 5 / 65536"
    using e1 e2 e3 e4 e5 by linarith
  then show ?thesis by (simp only: s2_def s1_def a1_def a2_def a3_def)
qed


lemma cb_err:
  fixes R G B :: real
  assumes "0 \<le> R" "R \<le> 255" "0 \<le> G" "G \<le> 255" "0 \<le> B" "B \<le> 255"
  shows "128 - (11323681 / 67108864) * R - (11115375 / 33554432) * G + 1 / 2 * B - 6 / 65536
           \<le> fadd (fsub (fsub 128 (fmul (11323681 / 67108864) R)) (fmul (11115375 / 33554432) G)) (fmul (1 / 2) B) \<and>
         fadd (fsub (fsub 128 (fmul (11323681 / 67108864) R)) (fmul (11115375 / 33554432) G)) (fmul (1 / 2) B)
           \<le> 128 - (11323681 / 67108864) * R - (11115375 / 33554432) * G + 1 / 2 * B + 6 / 65536"
proof -
  define a1 where "a1 = fmul (11323681 / 67108864) R"
  define a2 where "a2 = fmul (11115375 / 33554432) G"
  define a3 where "a3 = fmul (1 / 2) B"
  define s1 where "s1 = fsub 128 a1"
  define s2 where "s2 = fsub s1 a2"
  define s3 where "s3 = fadd s2 a3"
  have e1: "(11323681 / 67108864) * R - 1 / 65536 \<le> a1 \<and> a1 \<le> (11323681 / 67108864) * R + 1 / 65536"
    unfolding a1_def using assms by (intro fmul_err) linarith
  have e2: "(11115375 / 33554432) * G - 1 / 65536 \<le> a2 \<and> a2 \<le> (11115375 / 33554432) * G + 1 / 65536"
    unfolding a2_def using assms by (intro fmul_err) linarith
  have e3: "1 / 2 * B - 1 / 65536 \<le> a3 \<and> a3 \<le> 1 / 2 * B + 1 / 65536"
    unfolding a3_def using assms by (intro fmul_err) linarith
  have e4: "128 - a1 - 1 / 65536 \<le> s1 \<and> s1 \<le> 128 - a1 + 1 / 65536"
    unfolding s1_def using assms e1 by (intro fsub_err) linarith
  have e5: "s1 - a2 - 1 / 65536 \<le> s2 \<and> s2 \<le> s1 - a2 + 1 / 65536"
    unfolding s2_def using assms e1 e2 e4 by (intro fsub_err) linarith
  have e6: "s2 + a3 - 1 / 65536 \<le> s3 \<and> s3 \<le> s2 + a3 + 1 / 65536"
    unfolding s3_def using assms e1 e2 e3 e4 e5 by (intro fadd_err) linarith
  have "128 - (11323681 / 67108864) * R - (11115375 / 33554432) * G + 1 / 2 * B - 6 / 65536 \<le> s3 \<and>
        s3 \<le> 128 - (11323681 / 67108864) * R - (11115375 / 33554432) * G + 1 / 2 * B + 6 / 65536"
    using e1 e2 e3 e4 e5 e6 by linarith
  then show ?thesis by (simp only: s3_def s2_def s1_def a1_def a2_def a3_def)
qed

lemma cr_err:
  fixes R G B :: real
  assumes "0 \<le> R" "R \<le> 255" "0 \<le> G" "G \<le> 255" "0 \<le> B" "B \<le> 255"
  shows "128 + 1 / 2 * R - (7024419 / 16777216) * G - (1364189 / 16777216) * B - 6 / 65536
           \<le> fsub (fsub (fadd 128 (fmul (1 / 2) R)) (fmul (7024419 / 16777216) G)) (fmul (1364189 / 16777216) B) \<and>
         fsub (fsub (fadd 128 (fmul (1 / 2) R)) (fmul (7024419 / 16777216) G)) (fmul (1364189 / 16777216) B)
           \<le> 128 + 1 / 2 * R - (7024419 / 16777216) * G - (1364189 / 16777216) * B + 6 / 65536"
proof -
  define a1 where "a1 = fmul (1 / 2) R"
  define a2 where "a2 = fmul (7024419 / 16777216) G"
  define a3 where "a3 = fmul (1364189 / 16777216) B"
  define s1 where "s1 = fadd 128 a1"
  define s2 where "s2 = fsub s1 a2"
  define s3 where "s3 = fsub s2 a3"
  have e1: "1 / 2 * R - 1 / 65536 \<le> a1 \<and> a1 \<le> 1 / 2 * R + 1 / 65536"
    unfolding a1_def using assms by (intro fmul_err) linarith
  have e2: "(7024419 / 16777216) * G - 1 / 65536 \<le> a2 \<and> a2 \<le> (7024419 / 16777216) * G + 1 / 65536"
    unfolding a2_def using assms by (intro fmul_err) linarith
  have e3: "(1364189 / 16777216) * B - 1 / 65536 \<le> a3 \<and> a3 \<le> (1364189 / 16777216) * B + 1 / 65536"
    unfolding a3_def using assms by (intro fmul_err) linarith
  have e4: "128 + a1 - 1 / 65536 \<le> s1 \<and> s1 \<le> 128 + a1 + 1 / 65536"
    unfolding s1_def using assms e1 by (intro fadd_err) linarith
  have e5: "s1 - a2 - 1 / 65536 \<le> s2 \<and> s2 \<le> s1 - a2 + 1 / 65536"
    unfolding s2_def using assms e1 e2 e4 by (intro fsub_err) linarith
  have e6: "s2 - a3 - 1 / 65536 \<le> s3 \<and> s3 \<le> s2 - a3 + 1 / 65536"
    unfolding s3_def using assms e1 e2 e3 e4 e5 by (intro fsub_err) linarith
  have "128 + 1 / 2 * R - (7024419 / 16777216) * G - (1364189 / 16777216) * B - 6 / 65536 \<le> s3 \<and>
        s3 \<le> 128 + 1 / 2 * R - (7024419 / 16777216) * G - (1364189 / 16777216) * B + 6 / 65536"
    using e1 e2 e3 e4 e5 e6 by linarith
  then show ?thesis by (simp only: s3_def s2_def s1_def a1_def a2_def a3_def)
qed

lemma c_round_near:
  assumes "of_int n - 1 / 2 < x" "x < of_int n + 1 / 2"
  shows "c_round x = n"
proof (cases "0 \<le> x")
  case True
  have "\<lfloor>x + 1 / 2\<rfloor> = n" by (rule floor_unique) (use assms in linarith)+
  then show ?thesis using True by (simp add: c_round_def)
next
  case False
  have "\<lfloor>- x + 1 / 2\<rfloor> = - n" by (rule floor_unique) (use assms in simp_all)
  then show ?thesis using False by (simp add: c_round_def)
qed

lemma inverse_near:
  fixes R G B Y Cb Cr :: real
  assumes rng: "0 \<le> R" "R \<le> 255" "0 \<le> G" "G \<le> 255" "0 \<le> B" "B \<le> 255"
    and Y: "(10032775 / 33554432) * R + (4924113 / 8388608) * G + (15300821 / 134217728) * B - 5 / 65536 \<le> Y"
           "Y \<le> (10032775 / 33554432) * R + (4924113 / 8388608) * G + (15300821 / 134217728) * B + 5 / 65536"
    and Cb: "128 - (11323681 / 67108864) * R - (11115375 / 33554432) * G + 1 / 2 * B - 6 / 65536 \<le> Cb"
            "Cb \<le> 128 - (11323681 / 67108864) * R - (11115375 / 33554432) * G + 1 / 2 * B + 6 / 65536"
    and Cr: "128 + 1 / 2 * R - (7024419 / 16777216) * G - (1364189 / 16777216) * B - 6 / 65536 \<le> Cr"
            "Cr \<le> 128 + 1 / 2 * R - (7024419 / 16777216) * G - (1364189 / 16777216) * B + 6 / 65536"
  shows "R - 1 / 100 < fadd Y (fmul (2940207 / 2097152) (fsub Cr 128)) \<and>
         fadd Y (fmul (2940207 / 2097152) (fsub Cr 128)) < R + 1 / 100"
    and "G - 1 / 100 < fsub (fsub Y (fmul (1443411 / 4194304) (fsub Cb 128))) (fmul (5990607 / 8388608) (fsub Cr 128)) \<and>
         fsub (fsub Y (fmul (1443411 / 4194304) (fsub Cb 128))) (fmul (5990607 / 8388608) (fsub Cr 128)) < G + 1 / 100"
    and "B - 1 / 100 < fadd Y (fmul (14864613 / 8388608) (fsub Cb 128)) \<and>
         fadd Y (fmul (14864613 / 8388608) (fsub Cb 128)) < B + 1 / 100"
proof -
  define dr where "dr = fsub Cr 128"
  define db where "db = fsub Cb 128"
  define pr where "pr = fmul (2940207 / 2097152) dr"
  define pb where "pb = fmul (14864613 / 8388608) db"
  define qb where "qb = fmul (1443411 / 4194304) db"
  define qr where "qr = fmul (5990607 / 8388608) dr"
  define g1 where "g1 = fsub Y qb"
  have d1: "Cr - 128 - 1 / 65536 \<le> dr \<and> dr \<le> Cr - 128 + 1 / 65536"
    unfolding dr_def using rng Cr by (intro fsub_err) linarith
  have d2: "Cb - 128 - 1 / 65536 \<le> db \<and> db \<le> Cb - 128 + 1 / 65536"
    unfolding db_def using rng Cb by (intro fsub_err) linarith
  have drr: "- 129 \<le> dr \<and> dr \<le> 129" using rng Cr d1 by linarith
  have dbr: "- 129 \<le> db \<and> db \<le> 129" using rng Cb d2 by linarith
  have p1: "(2940207 / 2097152) * dr - 1 / 65536 \<le> pr \<and> pr \<le> (2940207 / 2097152) * dr + 1 / 65536"
    unfolding pr_def using drr by (intro fmul_err) linarith
  have p2: "(14864613 / 8388608) * db - 1 / 65536 \<le> pb \<and> pb \<le> (14864613 / 8388608) * db + 1 / 65536"
    unfolding pb_def using dbr by (intro fmul_err) linarith
  have p3: "(1443411 / 4194304) * db - 1 / 65536 \<le> qb \<and> qb \<le> (1443411 / 4194304) * db + 1 / 65536"
    unfolding qb_def using dbr by (intro fmul_err) linarith
  have p4: "(5990607 / 8388608) * dr - 1 / 65536 \<le> qr \<and> qr \<le> (5990607 / 8388608) * dr + 1 / 65536"
    unfolding qr_def using drr by (intro fmul_err) linarith
  have yr: "- 1 \<le> Y \<and> Y \<le> 256" using rng Y by linarith
  have r1: "Y + pr - 1 / 65536 \<le> fadd Y pr \<and> fadd Y pr \<le> Y + pr + 1 / 65536"
    using yr drr p1 by (intro fadd_err) linarith
  have b1: "Y + pb - 1 / 65536 \<le> fadd Y pb \<and> fadd Y pb \<le> Y + pb + 1 / 65536"
    using yr dbr p2 by (intro fadd_err) linarith
  have g1: "Y - qb - 1 / 65536 \<le> g1 \<and> g1 \<le> Y - qb + 1 / 65536"
    unfolding g1_def using yr dbr p3 by (intro fsub_err) linarith
  have g2: "g1 - qr - 1 / 65536 \<le> fsub g1 qr \<and> fsub g1 qr \<le> g1 - qr + 1 / 65536"
    using yr dbr drr p3 p4 g1 by (intro fsub_err) linarith
  have "R - 1 / 100 < fadd Y pr \<and> fadd Y pr < R + 1 / 100"
    using rng Y Cr d1 p1 r1 by linarith
  then show "R - 1 / 100 < fadd Y (fmul (2940207 / 2097152) (fsub Cr 128)) \<and>
         fadd Y (fmul (2940207 / 2097152) (fsub Cr 128)) < R + 1 / 100"
    by (simp only: pr_def dr_def)
  have "B - 1 / 100 < fadd Y pb \<and> fadd Y pb < B + 1 / 100"
    using rng Y Cb d2 p2 b1 by linarith
  then show "B - 1 / 100 < fadd Y (fmul (14864613 / 8388608) (fsub Cb 128)) \<and>
         fadd Y (fmul (14864613 / 8388608) (fsub Cb 128)) < B + 1 / 100"
    by (simp only: pb_def db_def)
  have "G - 1 / 100 < fsub g1 qr \<and> fsub g1 qr < G + 1 / 100"
    using rng Y Cb Cr d1 d2 p3 p4 g1 g2 by linarith
  then show "G - 1 / 100 < fsub (fsub Y (fmul (1443411 / 4194304) (fsub Cb 128))) (fmul (5990607 / 8388608) (fsub Cr 128)) \<and>
         fsub (fsub Y (fmul (1443411 / 4194304) (fsub Cb 128))) (fmul (5990607 / 8388608) (fsub Cr 128)) < G + 1 / 100"
    by (simp only: g1_def qb_def qr_def db_def dr_def)
qed


lemma u8_to_f32_int: "u8_to_f32 c = of_int (uint c)"
  by (simp only: u8_to_f32_def uint_nat of_int_of_nat_eq)

lemma uint_u8_range: "0 \<le> uint (c :: 8 word) \<and> uint c \<le> 255"
proof -
  have "uint c < 2 ^ LENGTH(8)" by (rule uint_lt2p)
  then have "uint c < 256" by simp
  moreover have "0 \<le> uint c" by (rule uint_ge_0)
  ultimately show ?thesis by linarith
qed

lemma u8_to_f32_range: "0 \<le> u8_to_f32 c \<and> u8_to_f32 c \<le> 255"
proof -
  have "(of_int 0 :: real) \<le> of_int (uint c) \<and> (of_int (uint c) :: real) \<le> of_int 255"
    using uint_u8_range [of c] by (simp only: of_int_le_iff)
  then show ?thesis by (simp add: u8_to_f32_int)
qed

lemma u8_of_near:
  assumes "u8_to_f32 c - 1 / 100 < x \<and> x < u8_to_f32 c + 1 / 100"
  shows "to_u8 (clamp_int (c_round x) 0 255) = c"
proof -
  have "c_round x = uint c"
    by (rule c_round_near) (use assms u8_to_f32_int [of c] in linarith)+
  then show ?thesis using uint_u8_range [of c] by (simp add: clamp_int_def to_u8_def)
qed

text \<open>
  Claim C4: for every RGB triple, converting to YCbCr and back with the nearest-rounding
  inverse gives channels that differ from the original ones by at most 1. The rounding
  errors of the seventeen binary32 operations add up to less than 0.01 on each channel, so
  the inverse in fact returns the pixel it started from.
\<close>

theorem roundtrip_within_one:
  "\<bar>uint (r (toRGB (fromRGB rgb))) - uint (r rgb)\<bar> \<le> 1 \<and>
   \<bar>uint (g (toRGB (fromRGB rgb))) - uint (g rgb)\<bar> \<le> 1 \<and>
   \<bar>uint (b (toRGB (fromRGB rgb))) - uint (b rgb)\<bar> \<le> 1"
proof -
  define R where "R = u8_to_f32 (r rgb)"
  define G where "G = u8_to_f32 (g rgb)"
  define B where "B = u8_to_f32 (b rgb)"
  have rng: "0 \<le> R" "R \<le> 255" "0 \<le> G" "G \<le> 255" "0 \<le> B" "B \<le> 255"
    using u8_to_f32_range [of "r rgb"] u8_to_f32_range [of "g rgb"] u8_to_f32_range [of "b rgb"]
    by (simp_all add: R_def G_def B_def)
  have Yv: "y (fromRGB rgb) = fadd (fadd (fmul (10032775 / 33554432) R) (fmul (4924113 / 8388608) G)) (fmul (15300821 / 134217728) B)"
    by (simp add: fromRGB_def R_def G_def B_def fl_c299 fl_c587 fl_c114)
  have Cbv: "cb (fromRGB rgb) = fadd (fsub (fsub 128 (fmul (11323681 / 67108864) R)) (fmul (11115375 / 33554432) G)) (fmul (1 / 2) B)"
    by (simp add: fromRGB_def R_def G_def B_def fl_c168 fl_c331)
  have Crv: "cr (fromRGB rgb) = fsub (fsub (fadd 128 (fmul (1 / 2) R)) (fmul (7024419 / 16777216) G)) (fmul (1364189 / 16777216) B)"
    by (simp add: fromRGB_def R_def G_def B_def fl_c418 fl_c081)
  note Y = luma_err [OF rng, folded Yv]
  note Cb = cb_err [OF rng, folded Cbv]
  note Cr = cr_err [OF rng, folded Crv]
  note near = inverse_near [OF rng Y [THEN conjunct1] Y [THEN conjunct2]
      Cb [THEN conjunct1] Cb [THEN conjunct2] Cr [THEN conjunct1] Cr [THEN conjunct2]]
  have ir: "inv_r (fromRGB rgb) = fadd (y (fromRGB rgb)) (fmul (2940207 / 2097152) (fsub (cr (fromRGB rgb)) 128))"
    by (simp add: inv_r_def fl_c1402)
  have ig: "inv_g (fromRGB rgb) =
      fsub (fsub (y (fromRGB rgb)) (fmul (1443411 / 4194304) (fsub (cb (fromRGB rgb)) 128)))
           (fmul (5990607 / 8388608) (fsub (cr (fromRGB rgb)) 128))"
    by (simp add: inv_g_def fl_c344 fl_c714)
  have ib: "inv_b (fromRGB rgb) = fadd (y (fromRGB rgb)) (fmul (14864613 / 8388608) (fsub (cb (fromRGB rgb)) 128))"
    by (simp add: inv_b_def fl_c1772)
  have 1: "to_u8 (clamp_int (c_round (inv_r (fromRGB rgb))) 0 255) = r rgb"
    by (rule u8_of_near) (use near(1) in \<open>simp only: ir R_def\<close>)
  have 2: "to_u8 (clamp_int (c_round (inv_g (fromRGB rgb))) 0 255) = g rgb"
    by (rule u8_of_near) (use near(2) in \<open>simp only: ig G_def\<close>)
  have 3: "to_u8 (clamp_int (c_round (inv_b (fromRGB rgb))) 0 255) = b rgb"
    by (rule u8_of_near) (use near(3) in \<open>simp only: ib B_def\<close>)
  have "toRGB (fromRGB rgb) = rgb" by (simp add: toRGB_def 1 2 3)
  then show ?thesis by simp
qed

end
